theory Spec2Isabelle
  imports Main
begin

section \<open>The CSV loader of mlpack (core/data/load\_csv.hpp)\<close>

text \<open>
  A shallow embedding of class \<open>LoadCSV\<close>: the constructor that picks the delimiter, the two
  dimension-discovery passes (\<open>GetMatrixSize\<close>, \<open>GetTransposeMatrixSize\<close>), the two population
  passes (\<open>NonTransposeParse\<close>, \<open>TransposeParse\<close>) and the dispatcher \<open>Load\<close>.

  Conventions.
  \<^item> A C++ exception is a value \<open>Inl (e, s)\<close>: the error together with the state of the
    objects passed by reference at the moment of the throw. Normal completion is \<open>Inr\<close>.
  \<^item> A loop that need not terminate is a \<^theory_text>\<open>partial_function (option)\<close>; the value
    \<open>None\<close> means that the call never returns.
  \<^item> \<open>size_t\<close> counters are natural numbers (a file has fewer than \<open>2 ^ 64\<close> lines and
    fields); the one place where the source relies on wrap-around, \<open>token.size() - 1\<close>,
    is written out in \<open>last_index\<close>.
\<close>

subsection \<open>Characters, strings and string indexing\<close>

definition dquote :: char where
  "dquote = CHR 0x22"

definition tab :: char where
  "tab = CHR 0x09"

definition SIZE_MAX :: nat where
  "SIZE_MAX = 2 ^ 64 - 1"

text \<open>\<open>std::isspace\<close> in the "C" locale: space, \<open>\t\<close>, \<open>\n\<close>, \<open>\v\<close>, \<open>\f\<close>, \<open>\r\<close>.\<close>

definition isspace :: "char \<Rightarrow> bool" where
  "isspace c = (c \<in> set [CHR '' '', CHR 0x09, CHR 0x0A, CHR 0x0B, CHR 0x0C, CHR 0x0D])"

text \<open>
  Modelled from the spec: \<open>trim\<close> is defined in string\_algorithms.hpp, which is not among
  the sources. The spec says that a token "undergoes leading/trailing whitespace trimming".
\<close>

definition trim :: "string \<Rightarrow> string" where
  "trim s = rev (dropWhile isspace (rev (dropWhile isspace s)))"

datatype error =
    CannotOpen string
      \<comment> \<open>\<open>CheckOpen\<close>: "Cannot open file '<filename>'."\<close>
  | DimensionalityMismatch nat nat
      \<comment> \<open>"given DatasetInfo has dimensionality <fst>, but data has dimensionality <snd>"\<close>
  | NonTransposeWrongDimensions nat nat nat
      \<comment> \<open>"wrong number of dimensions (<col>) on line <row>; should be <cols> dimensions."\<close>
  | TransposeWrongDimensions nat nat nat
      \<comment> \<open>"wrong number of dimensions (<row>) on line <col>; should be <rows> dimensions."\<close>
  | StringIndexOutOfRange nat nat
      \<comment> \<open>\<open>token[i]\<close> with \<open>i > token.size()\<close>: string size and index (undefined behaviour)\<close>
  | MatIndexOutOfBounds nat nat
      \<comment> \<open>\<open>inout(row, col)\<close> outside the matrix: row and column\<close>
  | MapStringError string
      \<comment> \<open>an exception thrown by the mapping policy's \<open>MapString\<close>\<close>
  | IndeterminateDelim
      \<comment> \<open>the member \<open>delim\<close> is used although no constructor branch assigned it\<close>

text \<open>
  \<open>std::string::operator[](pos)\<close>: the character at \<open>pos\<close> when \<open>pos < size()\<close>; a reference
  to a NUL character when \<open>pos = size()\<close> (C++11 and later); undefined for \<open>pos > size()\<close>.
\<close>

definition str_at :: "string \<Rightarrow> nat \<Rightarrow> error + char" where
  "str_at s i =
     (if i < length s then Inr (s ! i)
      else if i = length s then Inr (CHR 0x00)
      else Inl (StringIndexOutOfRange (length s) i))"

text \<open>\<open>token.size() - 1\<close> in \<open>size_t\<close> arithmetic: for the empty string it wraps around.\<close>

definition last_index :: "string \<Rightarrow> nat" where
  "last_index s = (if s = [] then SIZE_MAX else length s - 1)"

text \<open>An index read \<open>s[i]\<close> is logged as the pair of \<open>s.size()\<close> and \<open>i\<close>.\<close>

type_synonym index_read = "nat \<times> nat"

subsection \<open>The string stream of one line\<close>

text \<open>
  \<open>std::stringstream line_stream\<close>: the characters not yet read and the two state bits the
  loops look at (\<open>badbit\<close> is never set on a string stream).
\<close>

record sstream =
  buf :: string
  eofbit :: bool
  failbit :: bool

definition good :: "sstream \<Rightarrow> bool" where
  "good ls = (\<not> eofbit ls \<and> \<not> failbit ls)"

text \<open>\<open>line_stream.clear(); line_stream.str(line);\<close>\<close>

definition sstream_str :: "string \<Rightarrow> sstream" where
  "sstream_str line = \<lparr>buf = line, eofbit = False, failbit = False\<rparr>"

text \<open>
  \<open>std::getline(line_stream, token, delim)\<close>. If the stream is not good the sentry fails:
  \<open>failbit\<close> is set and \<open>token\<close> keeps its old value. Otherwise \<open>token\<close> is erased and
  characters are moved to it up to the next delimiter, which is consumed; when the end of
  the buffer is reached first, \<open>eofbit\<close> is set, and \<open>failbit\<close> too when nothing was
  extracted.
\<close>

definition getline :: "char \<Rightarrow> sstream \<Rightarrow> string \<Rightarrow> string \<times> sstream" where
  "getline d ls token =
     (if \<not> good ls then (token, ls\<lparr>failbit := True\<rparr>)
      else if d \<in> set (buf ls)
        then (takeWhile (\<lambda>c. c \<noteq> d) (buf ls),
              ls\<lparr>buf := tl (dropWhile (\<lambda>c. c \<noteq> d) (buf ls))\<rparr>)
      else (buf ls, ls\<lparr>buf := [], eofbit := True, failbit := (buf ls = [])\<rparr>))"

subsection \<open>Reading one field (the body shared by the four token loops)\<close>

text \<open>
  The condition \<open>token[0] == '"' && token[token.size() - 1] != '"'\<close>, with the index reads
  it performs. The second operand is evaluated only when the first holds.
\<close>

definition leading_quote_test :: "string \<Rightarrow> (error + bool) \<times> index_read list" where
  "leading_quote_test token =
     (case str_at token 0 of
        Inl e \<Rightarrow> (Inl e, [(length token, 0)])
      | Inr c \<Rightarrow>
          if c = dquote
          then (case str_at token (last_index token) of
                  Inl e \<Rightarrow> (Inl e, [(length token, 0), (length token, last_index token)])
                | Inr c' \<Rightarrow> (Inr (c' \<noteq> dquote),
                             [(length token, 0), (length token, last_index token)]))
          else (Inr False, [(length token, 0)]))"

text \<open>
  The inner loop
  \<^verbatim>\<open>while(token[token.size() - 1] != '"')
  { tok += delim; std::getline(line_stream, token, delim); tok += token; }\<close>
  It has no test of the stream state.
\<close>

partial_function (option) stitch ::
  "char \<Rightarrow> string \<Rightarrow> string \<Rightarrow> sstream \<Rightarrow> index_read list
     \<Rightarrow> (error + string \<times> sstream \<times> index_read list) option" where
  "stitch d token tok ls rd =
     (case str_at token (last_index token) of
        Inl e \<Rightarrow> Some (Inl e)
      | Inr c \<Rightarrow>
          if c = dquote then Some (Inr (tok, ls, rd @ [(length token, last_index token)]))
          else (case getline d ls token of
                  (token', ls') \<Rightarrow>
                    stitch d token' (tok @ d # token') ls'
                      (rd @ [(length token, last_index token)])))"

text \<open>
  \<^verbatim>\<open>std::getline(line_stream, token, delim); trim(token);
  if(token[0] == '"' && token[token.size() - 1] != '"')
  { std::string tok = token; while ... ; token = tok; }\<close>
  The result is the token, the stream after it and the index reads made on the way. The
  token loops call this only while \<open>line_stream.good()\<close>, so \<open>getline\<close> erases whatever
  \<open>token\<close> held before.
\<close>

definition next_token ::
  "char \<Rightarrow> sstream \<Rightarrow> (error + string \<times> sstream \<times> index_read list) option" where
  "next_token d ls =
     (case getline d ls [] of
        (token0, ls') \<Rightarrow>
          (case leading_quote_test (trim token0) of
             (Inl e, rd) \<Rightarrow> Some (Inl e)
           | (Inr True, rd) \<Rightarrow> stitch d (trim token0) (trim token0) ls' rd
           | (Inr False, rd) \<Rightarrow> Some (Inr (trim token0, ls', rd))))"

text \<open>
  \<^verbatim>\<open>while(line_stream.good()) { <next token>; <act on token> }\<close>
  The source writes this loop four times; the copies differ only in what is done with the
  token, which is the parameter \<open>act\<close> (it may throw).
\<close>

partial_function (option) token_loop ::
  "char \<Rightarrow> (string \<Rightarrow> 's \<Rightarrow> error \<times> 's + 's) \<Rightarrow> sstream \<Rightarrow> 's \<Rightarrow> (error \<times> 's + 's) option" where
  "token_loop d act ls st =
     (if \<not> good ls then Some (Inr st)
      else (case next_token d ls of
              None \<Rightarrow> None
            | Some (Inl e) \<Rightarrow> Some (Inl (e, st))
            | Some (Inr (token, ls', rd)) \<Rightarrow>
                (case act token st of
                   Inl es \<Rightarrow> Some (Inl es)
                 | Inr st' \<Rightarrow> token_loop d act ls' st')))"

subsection \<open>The collaborators: matrix and mapper\<close>

text \<open>
  \<open>arma::Mat<T>\<close>: its dimensions and its cells. A cell holds \<open>Some v\<close> once \<open>v\<close> has been
  assigned to it and \<open>None\<close> while it still holds whatever \<open>set_size\<close> left there
  (Armadillo does not initialise the memory).
\<close>

record 'v Mat =
  n_rows :: nat
  n_cols :: nat
  cells :: "nat \<times> nat \<Rightarrow> 'v option"

definition set_size :: "nat \<Rightarrow> nat \<Rightarrow> 'v Mat \<Rightarrow> 'v Mat" where
  "set_size rows cols M = \<lparr>n_rows = rows, n_cols = cols, cells = Map.empty\<rparr>"

text \<open>\<open>inout(row, col) = v\<close>; an access outside the matrix is an error of its own.\<close>

definition Mat_assign :: "'v Mat \<Rightarrow> nat \<Rightarrow> nat \<Rightarrow> 'v \<Rightarrow> error + 'v Mat" where
  "Mat_assign M row col v =
     (if row < n_rows M \<and> col < n_cols M
      then Inr (M\<lparr>cells := (cells M)((row, col) \<mapsto> v)\<rparr>)
      else Inl (MatIndexOutOfBounds row col))"

text \<open>
  Modelled from the spec: \<open>DatasetMapper<PolicyType>\<close> is defined in dataset\_mapper.hpp,
  which is not among the sources. The spec gives its contract: a mutable dimensionality
  (\<open>Dimensionality()\<close>, \<open>SetDimensionality(size)\<close>), a policy-level flag \<open>NeedsFirstPass\<close>,
  the preliminary hook \<open>MapFirstPass(token, position)\<close> whose return value is ignored, and
  the final hook \<open>MapString(token, position)\<close> whose return value is written into the
  matrix and which makes the final accept/reject decision for a token. The mapper is its
  dimensionality plus a policy state \<open>'p\<close>, on which the two hooks act.
\<close>

record 'p DatasetMapper =
  Dimensionality :: nat
  policy :: 'p

text \<open>Modelled from the spec: \<open>SetDimensionality(size)\<close> sets the expected axis length.\<close>

definition SetDimensionality :: "nat \<Rightarrow> 'p DatasetMapper \<Rightarrow> 'p DatasetMapper" where
  "SetDimensionality n info = info\<lparr>Dimensionality := n\<rparr>"

text \<open>
  Modelled from the spec: the policy, with its flag and its two hooks. \<open>MapString\<close> yields
  the value for the matrix or, when it rejects the token, the message of its exception.
\<close>

record ('p, 'v) MapPolicy =
  NeedsFirstPass :: bool
  MapFirstPass :: "string \<Rightarrow> nat \<Rightarrow> 'p \<Rightarrow> 'p"
  MapString :: "string \<Rightarrow> nat \<Rightarrow> 'p \<Rightarrow> (string + 'v) \<times> 'p"

subsection \<open>The file and the helper that measures it\<close>

text \<open>
  The input file \<open>inFile\<close> is the list of lines that successive calls
  \<open>std::getline(inFile, line)\<close> deliver after \<open>inFile.clear(); inFile.seekg(0)\<close>.
\<close>

type_synonym ifstream = "string list"

text \<open>
  Modelled from the spec: the tokenizer as section 4.1 describes it, for the helper
  \<open>GetNonNumericMatSize\<close> below, whose definition is not among the sources. \<open>split_on\<close>
  splits a line at every delimiter; \<open>spec_fields\<close> walks through the pieces, its second
  argument being the quoted field under assembly, if any.
\<close>

fun split_on :: "char \<Rightarrow> string \<Rightarrow> string list" where
  "split_on d [] = [] # []"
| "split_on d (c # cs) =
     (if c = d then [] # split_on d cs
      else (case split_on d cs of
              [] \<Rightarrow> [c] # []
            | x # xs \<Rightarrow> (c # x) # xs))"

fun spec_fields :: "char \<Rightarrow> string option \<Rightarrow> string list \<Rightarrow> string list" where
  "spec_fields d None [] = []"
| "spec_fields d (Some acc) [] = [acc]"
| "spec_fields d None (p # ps) =
     (if trim p \<noteq> [] \<and> hd (trim p) = dquote \<and> last (trim p) \<noteq> dquote
      then spec_fields d (Some (trim p)) ps
      else trim p # spec_fields d None ps)"
| "spec_fields d (Some acc) (p # ps) =
     (if p \<noteq> [] \<and> last p = dquote
      then (acc @ d # p) # spec_fields d None ps
      else spec_fields d (Some (acc @ d # p)) ps)"

text \<open>
  Modelled from the spec: \<open>GetNonNumericMatSize(inFile, delim)\<close> is declared in the class
  but defined in load\_csv\_impl.hpp, which is not among the sources. The callers use only
  the second component. The spec says that it is "the field count of the first data-bearing
  line" (section 4.3; section 4.4: "derived from the first line's field count"), counted by
  the tokenizer of section 4.1: split on the delimiter; a trimmed field that begins with a
  quote and does not end with one is joined with the following pieces until one ends in a
  quote or the input is exhausted. The stream is left where it was. The first component,
  about which the spec is silent, is the number of lines.
\<close>

definition GetNonNumericMatSize :: "ifstream \<Rightarrow> char \<Rightarrow> nat \<times> nat" where
  "GetNonNumericMatSize f d =
     (length f,
      case filter (\<lambda>l. l \<noteq> []) (map trim f) of
        [] \<Rightarrow> 0
      | l # _ \<Rightarrow> length (spec_fields d None (split_on d l)))"

subsection \<open>The loader object and its constructor\<close>

text \<open>
  The member \<open>delim\<close> has no initialiser: it is \<open>None\<close> until a branch of the constructor
  assigns it. \<open>inFile\<close> is \<open>None\<close> when the stream is not open.
\<close>

record loader =
  delim :: "char option"
  extension :: string
  filename :: string
  inFile :: "ifstream option"

text \<open>
  \<open>LoadCSV(const std::string& file)\<close>. \<open>Extension\<close> is defined in extension.hpp, which is not
  among the sources, so its result for \<open>file\<close> is the parameter \<open>ext\<close>; \<open>opened\<close> is what
  \<open>inFile(file)\<close> yields: the lines of the file, or \<open>None\<close> if it cannot be opened, in which
  case \<open>CheckOpen\<close> throws.
\<close>

definition LoadCSV :: "string \<Rightarrow> string \<Rightarrow> ifstream option \<Rightarrow> error + loader" where
  "LoadCSV ext file opened =
     (case opened of
        None \<Rightarrow> Inl (CannotOpen file)
      | Some f \<Rightarrow>
          Inr \<lparr>delim = (if ext = ''csv'' then Some (CHR '','')
                        else if ext = ''tsv'' then Some tab
                        else if ext = ''txt'' then Some (CHR '' '')
                        else None),
               extension = ext, filename = file, inFile = Some f\<rparr>)"

subsection \<open>Dimension discovery\<close>

text \<open>
  \<^verbatim>\<open>if (info.Dimensionality() == 0) info.SetDimensionality(rows);
  else if (info.Dimensionality() != rows) throw std::invalid_argument(...);\<close>
\<close>

definition check_dimensionality ::
  "nat \<Rightarrow> 'p DatasetMapper \<Rightarrow> error \<times> 'p DatasetMapper + 'p DatasetMapper" where
  "check_dimensionality rows info =
     (if Dimensionality info = 0 then Inr (SetDimensionality rows info)
      else if Dimensionality info \<noteq> rows
        then Inl (DimensionalityMismatch (Dimensionality info) rows, info)
      else Inr info)"

text \<open>\<open>info.template MapFirstPass<T>(std::move(token), rows - 1)\<close>\<close>

definition first_pass :: "('p, 'v) MapPolicy \<Rightarrow> nat \<Rightarrow> string \<Rightarrow> 'p DatasetMapper
    \<Rightarrow> error \<times> 'p DatasetMapper + 'p DatasetMapper" where
  "first_pass pol pos token info = Inr (info\<lparr>policy := MapFirstPass pol token pos (policy info)\<rparr>)"

text \<open>
  The second loop of \<open>GetMatrixSize\<close> (lines 208 to 277), over the lines still to be read;
  \<open>rows\<close> and \<open>cols\<close> are the loop's variables, \<open>f\<close> is the whole file, for the helper.
\<close>

fun GetMatrixSize_lines ::
  "('p, 'v) MapPolicy \<Rightarrow> char \<Rightarrow> ifstream \<Rightarrow> string list \<Rightarrow> nat \<Rightarrow> nat \<Rightarrow> 'p DatasetMapper
     \<Rightarrow> (error \<times> 'p DatasetMapper + (nat \<times> nat) \<times> 'p DatasetMapper) option" where
  "GetMatrixSize_lines pol d f [] rows cols info = Some (Inr ((rows, cols), info))"
| "GetMatrixSize_lines pol d f (l # ls) rows cols info =
     (let cols' = (if rows + 1 = 1 then snd (GetNonNumericMatSize f d) else cols) in
      if NeedsFirstPass pol then
        (if trim l = [] then Some (Inr ((rows + 1, cols'), info))
         else (case token_loop d (first_pass pol (rows + 1 - 1)) (sstream_str (trim l)) info of
                 None \<Rightarrow> None
               | Some (Inl e) \<Rightarrow> Some (Inl e)
               | Some (Inr info') \<Rightarrow> GetMatrixSize_lines pol d f ls (rows + 1) cols' info'))
      else GetMatrixSize_lines pol d f ls (rows + 1) cols' info)"

text \<open>
  \<open>GetMatrixSize\<close>: the first loop counts the lines; the dimensionality block follows,
  twice in the source; then the second loop starts with \<open>rows = 0\<close>.
\<close>

definition GetMatrixSize ::
  "('p, 'v) MapPolicy \<Rightarrow> char \<Rightarrow> ifstream \<Rightarrow> 'p DatasetMapper
     \<Rightarrow> (error \<times> 'p DatasetMapper + (nat \<times> nat) \<times> 'p DatasetMapper) option" where
  "GetMatrixSize pol d f info =
     (case check_dimensionality (length f) info of
        Inl e \<Rightarrow> Some (Inl e)
      | Inr info1 \<Rightarrow>
          (case check_dimensionality (length f) info1 of
             Inl e \<Rightarrow> Some (Inl e)
           | Inr info2 \<Rightarrow> GetMatrixSize_lines pol d f f 0 0 info2))"

text \<open>\<open>info.template MapFirstPass<T>(std::move(token), dim++)\<close>\<close>

definition first_pass_dim :: "('p, 'v) MapPolicy \<Rightarrow> string \<Rightarrow> 'p DatasetMapper \<times> nat
    \<Rightarrow> error \<times> ('p DatasetMapper \<times> nat) + 'p DatasetMapper \<times> nat" where
  "first_pass_dim pol token s =
     (case s of (info, dim) \<Rightarrow>
        Inr (info\<lparr>policy := MapFirstPass pol token dim (policy info)\<rparr>, dim + 1))"

text \<open>The loop of \<open>GetTransposeMatrixSize\<close> (lines 307 to 391).\<close>

fun GetTransposeMatrixSize_lines ::
  "('p, 'v) MapPolicy \<Rightarrow> char \<Rightarrow> ifstream \<Rightarrow> string list \<Rightarrow> nat \<Rightarrow> nat \<Rightarrow> 'p DatasetMapper
     \<Rightarrow> (error \<times> 'p DatasetMapper + (nat \<times> nat) \<times> 'p DatasetMapper) option" where
  "GetTransposeMatrixSize_lines pol d f [] rows cols info = Some (Inr ((rows, cols), info))"
| "GetTransposeMatrixSize_lines pol d f (l # ls) rows cols info =
     (case (if cols + 1 = 1
            then (case check_dimensionality (snd (GetNonNumericMatSize f d)) info of
                    Inl e \<Rightarrow> Inl e
                  | Inr info1 \<Rightarrow> Inr (snd (GetNonNumericMatSize f d), info1))
            else Inr (rows, info)) of
        Inl e \<Rightarrow> Some (Inl e)
      | Inr (rows', info1) \<Rightarrow>
          if NeedsFirstPass pol then
            (if trim l = [] then Some (Inr ((rows', cols + 1), info1))
             else (case token_loop d (first_pass_dim pol) (sstream_str (trim l)) (info1, 0) of
                     None \<Rightarrow> None
                   | Some (Inl (e, s)) \<Rightarrow> Some (Inl (e, fst s))
                   | Some (Inr s) \<Rightarrow>
                       GetTransposeMatrixSize_lines pol d f ls rows' (cols + 1) (fst s)))
          else GetTransposeMatrixSize_lines pol d f ls rows' (cols + 1) info1)"

definition GetTransposeMatrixSize ::
  "('p, 'v) MapPolicy \<Rightarrow> char \<Rightarrow> ifstream \<Rightarrow> 'p DatasetMapper
     \<Rightarrow> (error \<times> 'p DatasetMapper + (nat \<times> nat) \<times> 'p DatasetMapper) option" where
  "GetTransposeMatrixSize pol d f info = GetTransposeMatrixSize_lines pol d f f 0 0 info"

subsection \<open>Matrix population\<close>

text \<open>
  \<open>inout(row, col++) = infoSet.template MapString<T>(std::move(token), row)\<close>: the state is
  the matrix, the mapper and \<open>col\<close>. The right-hand side is evaluated first.
\<close>

definition NonTranspose_store ::
  "('p, 'v) MapPolicy \<Rightarrow> nat \<Rightarrow> string \<Rightarrow> 'v Mat \<times> 'p DatasetMapper \<times> nat
     \<Rightarrow> error \<times> ('v Mat \<times> 'p DatasetMapper \<times> nat) + 'v Mat \<times> 'p DatasetMapper \<times> nat" where
  "NonTranspose_store pol row token s =
     (case s of (inout, infoSet, col) \<Rightarrow>
        (case MapString pol token row (policy infoSet) of
           (Inl msg, p') \<Rightarrow> Inl (MapStringError msg, (inout, infoSet\<lparr>policy := p'\<rparr>, col))
         | (Inr v, p') \<Rightarrow>
             (case Mat_assign inout row col v of
                Inl e \<Rightarrow> Inl (e, (inout, infoSet\<lparr>policy := p'\<rparr>, col + 1))
              | Inr inout' \<Rightarrow> Inr (inout', infoSet\<lparr>policy := p'\<rparr>, col + 1))))"

text \<open>
  The loop of \<open>NonTransposeParse\<close> (lines 435 to 520). \<open>col\<close> is \<open>0\<close> whenever a line is
  begun. The flag \<open>canParse\<close> is the constant \<open>true\<close>, so its test never throws. The
  statement \<open>if(token == "\t") token.clear();\<close> at the head of the token loop changes a
  variable that the \<open>getline\<close> after it overwrites, the stream being good there; it has no
  counterpart in the model.
\<close>

fun NonTransposeParse_lines ::
  "('p, 'v) MapPolicy \<Rightarrow> char \<Rightarrow> string list \<Rightarrow> nat \<Rightarrow> nat \<Rightarrow> 'v Mat \<Rightarrow> 'p DatasetMapper
     \<Rightarrow> (error \<times> ('v Mat \<times> 'p DatasetMapper) + 'v Mat \<times> 'p DatasetMapper) option" where
  "NonTransposeParse_lines pol d [] cols row inout infoSet = Some (Inr (inout, infoSet))"
| "NonTransposeParse_lines pol d (l # ls) cols row inout infoSet =
     (if trim l = [] then Some (Inr (inout, infoSet))
      else (case token_loop d (NonTranspose_store pol row) (sstream_str (trim l))
                   (inout, infoSet, 0) of
              None \<Rightarrow> None
            | Some (Inl (e, s)) \<Rightarrow> Some (Inl (e, (fst s, fst (snd s))))
            | Some (Inr s) \<Rightarrow>
                if snd (snd s) \<noteq> cols
                then Some (Inl (NonTransposeWrongDimensions (snd (snd s)) row cols,
                                (fst s, fst (snd s))))
                else NonTransposeParse_lines pol d ls cols (row + 1) (fst s) (fst (snd s))))"

definition NonTransposeParse ::
  "('p, 'v) MapPolicy \<Rightarrow> char \<Rightarrow> ifstream \<Rightarrow> 'v Mat \<Rightarrow> 'p DatasetMapper
     \<Rightarrow> (error \<times> ('v Mat \<times> 'p DatasetMapper) + 'v Mat \<times> 'p DatasetMapper) option" where
  "NonTransposeParse pol d f inout infoSet =
     (case GetMatrixSize pol d f infoSet of
        None \<Rightarrow> None
      | Some (Inl (e, infoSet')) \<Rightarrow> Some (Inl (e, (inout, infoSet')))
      | Some (Inr ((rows, cols), infoSet')) \<Rightarrow>
          NonTransposeParse_lines pol d f cols 0 (set_size rows cols inout) infoSet')"

text \<open>
  \<open>inout(row, col) = infoSet.template MapString<T>(std::move(token), row); row++;\<close>: the
  state is the matrix, the mapper and \<open>row\<close>.
\<close>

definition Transpose_store ::
  "('p, 'v) MapPolicy \<Rightarrow> nat \<Rightarrow> string \<Rightarrow> 'v Mat \<times> 'p DatasetMapper \<times> nat
     \<Rightarrow> error \<times> ('v Mat \<times> 'p DatasetMapper \<times> nat) + 'v Mat \<times> 'p DatasetMapper \<times> nat" where
  "Transpose_store pol col token s =
     (case s of (inout, infoSet, row) \<Rightarrow>
        (case MapString pol token row (policy infoSet) of
           (Inl msg, p') \<Rightarrow> Inl (MapStringError msg, (inout, infoSet\<lparr>policy := p'\<rparr>, row))
         | (Inr v, p') \<Rightarrow>
             (case Mat_assign inout row col v of
                Inl e \<Rightarrow> Inl (e, (inout, infoSet\<lparr>policy := p'\<rparr>, row))
              | Inr inout' \<Rightarrow> Inr (inout', infoSet\<lparr>policy := p'\<rparr>, row + 1))))"

text \<open>The loop of \<open>TransposeParse\<close> (lines 546 to 629); \<open>row\<close> is reset to \<open>0\<close> at each line.\<close>

fun TransposeParse_lines ::
  "('p, 'v) MapPolicy \<Rightarrow> char \<Rightarrow> string list \<Rightarrow> nat \<Rightarrow> nat \<Rightarrow> 'v Mat \<Rightarrow> 'p DatasetMapper
     \<Rightarrow> (error \<times> ('v Mat \<times> 'p DatasetMapper) + 'v Mat \<times> 'p DatasetMapper) option" where
  "TransposeParse_lines pol d [] rows col inout infoSet = Some (Inr (inout, infoSet))"
| "TransposeParse_lines pol d (l # ls) rows col inout infoSet =
     (if trim l = [] then Some (Inr (inout, infoSet))
      else (case token_loop d (Transpose_store pol col) (sstream_str (trim l))
                   (inout, infoSet, 0) of
              None \<Rightarrow> None
            | Some (Inl (e, s)) \<Rightarrow> Some (Inl (e, (fst s, fst (snd s))))
            | Some (Inr s) \<Rightarrow>
                if snd (snd s) \<noteq> rows
                then Some (Inl (TransposeWrongDimensions (snd (snd s)) col rows,
                                (fst s, fst (snd s))))
                else TransposeParse_lines pol d ls rows (col + 1) (fst s) (fst (snd s))))"

definition TransposeParse ::
  "('p, 'v) MapPolicy \<Rightarrow> char \<Rightarrow> ifstream \<Rightarrow> 'v Mat \<Rightarrow> 'p DatasetMapper
     \<Rightarrow> (error \<times> ('v Mat \<times> 'p DatasetMapper) + 'v Mat \<times> 'p DatasetMapper) option" where
  "TransposeParse pol d f inout infoSet =
     (case GetTransposeMatrixSize pol d f infoSet of
        None \<Rightarrow> None
      | Some (Inl (e, infoSet')) \<Rightarrow> Some (Inl (e, (inout, infoSet')))
      | Some (Inr ((rows, cols), infoSet')) \<Rightarrow>
          TransposeParse_lines pol d f rows 0 (set_size rows cols inout) infoSet')"

text \<open>
  The two parsers when the member \<open>delim\<close> was never assigned. They run as in the source up
  to the first use of \<open>delim\<close>, which is the argument of \<open>GetNonNumericMatSize\<close> on the
  first line of the file: in \<open>GetMatrixSize\<close> at line 215, after the line count and the
  dimensionality block (lines 170 to 201); in \<open>GetTransposeMatrixSize\<close> at line 316, before
  the dimensionality block. A file without lines never gets there: both discovery loops
  and both population loops are skipped and the matrix is sized 0 by 0.
\<close>

definition NonTransposeParse_unset ::
  "ifstream \<Rightarrow> 'v Mat \<Rightarrow> 'p DatasetMapper
     \<Rightarrow> (error \<times> ('v Mat \<times> 'p DatasetMapper) + 'v Mat \<times> 'p DatasetMapper) option" where
  "NonTransposeParse_unset f inout infoSet =
     (case check_dimensionality (length f) infoSet of
        Inl (e, infoSet') \<Rightarrow> Some (Inl (e, (inout, infoSet')))
      | Inr info1 \<Rightarrow>
          (case check_dimensionality (length f) info1 of
             Inl (e, infoSet') \<Rightarrow> Some (Inl (e, (inout, infoSet')))
           | Inr info2 \<Rightarrow>
               if f = [] then Some (Inr (set_size 0 0 inout, info2))
               else Some (Inl (IndeterminateDelim, (inout, info2)))))"

definition TransposeParse_unset ::
  "ifstream \<Rightarrow> 'v Mat \<Rightarrow> 'p DatasetMapper
     \<Rightarrow> (error \<times> ('v Mat \<times> 'p DatasetMapper) + 'v Mat \<times> 'p DatasetMapper) option" where
  "TransposeParse_unset f inout infoSet =
     (if f = [] then Some (Inr (set_size 0 0 inout, infoSet))
      else Some (Inl (IndeterminateDelim, (inout, infoSet))))"

text \<open>
  \<open>Load\<close>: \<open>CheckOpen\<close>, then the parser chosen by the flag \<open>transpose\<close>. \<open>Load\<close> itself does
  not look at \<open>delim\<close>; the parsers do, when they come to use it.
\<close>

definition Load ::
  "('p, 'v) MapPolicy \<Rightarrow> loader \<Rightarrow> 'v Mat \<Rightarrow> 'p DatasetMapper \<Rightarrow> bool
     \<Rightarrow> (error \<times> ('v Mat \<times> 'p DatasetMapper) + 'v Mat \<times> 'p DatasetMapper) option" where
  "Load pol L inout infoSet transpose' =
     (case inFile L of
        None \<Rightarrow> Some (Inl (CannotOpen (filename L), (inout, infoSet)))
      | Some f \<Rightarrow>
          (case delim L of
             Some d \<Rightarrow>
               if transpose' then TransposeParse pol d f inout infoSet
               else NonTransposeParse pol d f inout infoSet
           | None \<Rightarrow>
               if transpose' then TransposeParse_unset f inout infoSet
               else NonTransposeParse_unset f inout infoSet))"

subsection \<open>Policies and inputs used in the examples\<close>

text \<open>
  A policy that records the calls of the preliminary hook (token and positional argument,
  in call order) and whose final hook accepts every token and returns it unchanged.
\<close>

definition recording_policy :: "bool \<Rightarrow> ((string \<times> nat) list, string) MapPolicy" where
  "recording_policy needs =
     \<lparr>NeedsFirstPass = needs,
      MapFirstPass = (\<lambda>token pos calls. calls @ [(token, pos)]),
      MapString = (\<lambda>token pos calls. (Inr token, calls))\<rparr>"

definition fresh_mapper :: "nat \<Rightarrow> (string \<times> nat) list DatasetMapper" where
  "fresh_mapper n = \<lparr>Dimensionality = n, policy = []\<rparr>"

definition empty_Mat :: "string Mat" where
  "empty_Mat = \<lparr>n_rows = 0, n_cols = 0, cells = Map.empty\<rparr>"

definition comma :: char where
  "comma = CHR '',''"

text \<open>The loader that the constructor builds for a file \<open>data.csv\<close> with the lines \<open>f\<close>.\<close>

definition csv_loader :: "ifstream \<Rightarrow> loader" where
  "csv_loader f =
     \<lparr>delim = Some comma, extension = ''csv'', filename = ''data.csv'', inFile = Some f\<rparr>"

subsection \<open>Notions used to state the claims\<close>

text \<open>What a finished call threw, if anything.\<close>

definition thrown :: "(error \<times> 's + 's) option \<Rightarrow> error option" where
  "thrown r = (case r of Some (Inl (e, s)) \<Rightarrow> Some e | _ \<Rightarrow> None)"

text \<open>The mapper as a discovery pass leaves it, whether it returned or threw.\<close>

definition mapper_after :: "error \<times> 'i + 'a \<times> 'i \<Rightarrow> 'i" where
  "mapper_after r = (case r of Inl (e, info) \<Rightarrow> info | Inr (x, info) \<Rightarrow> info)"

text \<open>The number of lines before the first line that is empty once trimmed.\<close>

definition lines_before_blank :: "string list \<Rightarrow> nat" where
  "lines_before_blank ls = length (takeWhile (\<lambda>l. trim l \<noteq> []) ls)"

text \<open>
  The tokens of a line: what the token loop hands on, one after the other, when the
  action only collects them (the empty list if the loop does not return normally).
\<close>

definition collect :: "string \<Rightarrow> string list \<Rightarrow> error \<times> string list + string list" where
  "collect token ts = Inr (ts @ [token])"

definition line_tokens :: "char \<Rightarrow> string \<Rightarrow> string list" where
  "line_tokens d line =
     (case token_loop d collect (sstream_str line) [] of
        Some (Inr ts) \<Rightarrow> ts
      | _ \<Rightarrow> [])"

text \<open>
  The calls of the preliminary hook that the claims describe: every token of every line
  up to the first empty one, in order, paired with the zero-based index of its line,
  respectively with its zero-based index within its line.
\<close>

fun calls_by_line :: "char \<Rightarrow> nat \<Rightarrow> string list \<Rightarrow> (string \<times> nat) list" where
  "calls_by_line d i [] = []"
| "calls_by_line d i (l # ls) =
     (if trim l = [] then []
      else map (\<lambda>token. (token, i)) (line_tokens d (trim l)) @ calls_by_line d (Suc i) ls)"

fun calls_by_field :: "char \<Rightarrow> string list \<Rightarrow> (string \<times> nat) list" where
  "calls_by_field d [] = []"
| "calls_by_field d (l # ls) =
     (if trim l = [] then []
      else zip (line_tokens d (trim l)) [0 ..< length (line_tokens d (trim l))]
           @ calls_by_field d ls)"

text \<open>The policy state after a sequence of calls of the preliminary hook.\<close>

definition apply_calls :: "('p, 'v) MapPolicy \<Rightarrow> (string \<times> nat) list \<Rightarrow> 'p \<Rightarrow> 'p" where
  "apply_calls pol calls p = foldl (\<lambda>p (token, pos). MapFirstPass pol token pos p) p calls"

text \<open>The mapper as a load leaves it, whether it returned or threw.\<close>

definition mapper_of :: "error \<times> ('m \<times> 'i) + 'm \<times> 'i \<Rightarrow> 'i" where
  "mapper_of r = (case r of Inl (e, s) \<Rightarrow> snd s | Inr s \<Rightarrow> snd s)"

text \<open>A loader on the lines \<open>f\<close> whose extension is none of the three the constructor knows.\<close>

definition dat_loader :: "ifstream \<Rightarrow> loader" where
  "dat_loader f = \<lparr>delim = None, extension = ''dat'', filename = ''data.dat'', inFile = Some f\<rparr>"

section \<open>Basic facts\<close>

subsection \<open>Evaluating the loops\<close>

lemma last_index_Cons: "token \<noteq> [] \<Longrightarrow> last_index token = length token - 1"
  by (simp add: last_index_def)

lemma str_at_last: "token \<noteq> [] \<Longrightarrow> str_at token (last_index token) = Inr (last token)"
  by (simp add: str_at_def last_index_def last_conv_nth)

lemma str_at_last': "token \<noteq> [] \<Longrightarrow> str_at token (length token - Suc 0) = Inr (last token)"
  by (simp add: str_at_def last_conv_nth)

lemma str_at_last_Nil: "str_at [] (last_index []) = Inl (StringIndexOutOfRange 0 SIZE_MAX)"
  by (simp add: str_at_def last_index_def SIZE_MAX_def)

lemma stitch_Nil: "stitch d [] tok ls rd = Some (Inl (StringIndexOutOfRange 0 SIZE_MAX))"
  by (subst stitch.simps) (simp add: str_at_last_Nil)

lemma stitch_closed:
  "token \<noteq> [] \<Longrightarrow> last token = dquote \<Longrightarrow>
   stitch d token tok ls rd = Some (Inr (tok, ls, rd @ [(length token, length token - 1)]))"
  by (subst stitch.simps) (simp add: str_at_last' last_index_Cons)

lemma stitch_open:
  "good ls \<Longrightarrow> token \<noteq> [] \<Longrightarrow> last token \<noteq> dquote \<Longrightarrow>
   stitch d token tok ls rd =
     stitch d (fst (getline d ls token)) (tok @ d # fst (getline d ls token))
       (snd (getline d ls token)) (rd @ [(length token, length token - 1)])"
  by (subst stitch.simps) (simp add: str_at_last' last_index_Cons split: prod.splits)

lemma getline_not_good: "\<not> good ls \<Longrightarrow> getline d ls token = (token, ls\<lparr>failbit := True\<rparr>)"
  by (simp add: getline_def)

text \<open>
  Once the stream is exhausted, \<open>getline\<close> leaves a token that does not end in a quote as it
  is, and the inner loop never leaves: no call in that state returns.
\<close>

lemma stitch_returns_not_exhausted:
  "stitch d token tok ls rd = Some r \<Longrightarrow>
   \<not> (\<not> good ls \<and> token \<noteq> [] \<and> last token \<noteq> dquote)"
proof (rule stitch.raw_induct
    [where P = "\<lambda>d token tok ls rd r. \<not> (\<not> good ls \<and> token \<noteq> [] \<and> last token \<noteq> dquote)"])
  fix st' :: "char \<Rightarrow> string \<Rightarrow> string \<Rightarrow> sstream \<Rightarrow> index_read list
                \<Rightarrow> (error + string \<times> sstream \<times> index_read list) option"
  fix d token tok ls rd r
  assume IH: "\<And>d token tok ls rd r. st' d token tok ls rd = Some r \<Longrightarrow>
     \<not> (\<not> good ls \<and> token \<noteq> [] \<and> last token \<noteq> dquote)"
  assume body: "(case str_at token (last_index token) of
        Inl e \<Rightarrow> Some (Inl e)
      | Inr c \<Rightarrow>
          if c = dquote then Some (Inr (tok, ls, rd @ [(length token, last_index token)]))
          else (case getline d ls token of
                  (token', ls') \<Rightarrow>
                    st' d token' (tok @ d # token') ls'
                      (rd @ [(length token, last_index token)]))) = Some r"
  show "\<not> (\<not> good ls \<and> token \<noteq> [] \<and> last token \<noteq> dquote)"
  proof
    assume ex: "\<not> good ls \<and> token \<noteq> [] \<and> last token \<noteq> dquote"
    then have "st' d token (tok @ d # token) (ls\<lparr>failbit := True\<rparr>)
                 (rd @ [(length token, last_index token)]) = Some r"
      using body by (simp add: str_at_last getline_not_good)
    from IH[OF this] ex show False by (simp add: good_def)
  qed
next
  show "stitch d token tok ls rd = Some r" if "stitch d token tok ls rd = Some r"
    using that .
qed

lemma stitch_exhausted:
  "\<not> good ls \<Longrightarrow> token \<noteq> [] \<Longrightarrow> last token \<noteq> dquote \<Longrightarrow> stitch d token tok ls rd = None"
  using stitch_returns_not_exhausted[of d token tok ls rd]
  by (cases "stitch d token tok ls rd") auto

lemma token_loop_not_good: "\<not> good ls \<Longrightarrow> token_loop d act ls st = Some (Inr st)"
  by (subst token_loop.simps) simp

lemma token_loop_good:
  "good ls \<Longrightarrow> token_loop d act ls st =
     (case next_token d ls of
        None \<Rightarrow> None
      | Some (Inl e) \<Rightarrow> Some (Inl (e, st))
      | Some (Inr (token, ls', rd)) \<Rightarrow>
          (case act token st of
             Inl es \<Rightarrow> Some (Inl es)
           | Inr st' \<Rightarrow> token_loop d act ls' st'))"
  by (subst token_loop.simps) simp

lemmas eval_simps = token_loop_not_good token_loop_good next_token_def getline_def good_def
  sstream_str_def leading_quote_test_def str_at_def last_index_def trim_def isspace_def
  dquote_def comma_def stitch_Nil stitch_closed stitch_open stitch_exhausted
  recording_policy_def fresh_mapper_def empty_Mat_def set_size_def Mat_assign_def
  NonTranspose_store_def Transpose_store_def first_pass_def first_pass_dim_def
  check_dimensionality_def SetDimensionality_def GetNonNumericMatSize_def
  GetMatrixSize_def GetTransposeMatrixSize_def NonTransposeParse_def TransposeParse_def
  Load_def csv_loader_def thrown_def

lemma LoadCSV_csv_loader: "LoadCSV ''csv'' ''data.csv'' (Some f) = Inr (csv_loader f)"
  by (simp add: LoadCSV_def csv_loader_def comma_def)

subsection \<open>What the token loop can throw, and what it preserves\<close>

lemma str_at_error: "str_at s i = Inl e \<Longrightarrow> \<exists>n j. e = StringIndexOutOfRange n j"
  by (auto simp: str_at_def split: if_splits)

lemma stitch_error:
  "stitch d token tok ls rd = Some r \<Longrightarrow> r = Inl e \<longrightarrow> (\<exists>n j. e = StringIndexOutOfRange n j)"
proof (rule stitch.raw_induct
    [where P = "\<lambda>d token tok ls rd r. r = Inl e \<longrightarrow> (\<exists>n j. e = StringIndexOutOfRange n j)"])
  fix st' :: "char \<Rightarrow> string \<Rightarrow> string \<Rightarrow> sstream \<Rightarrow> index_read list
                \<Rightarrow> (error + string \<times> sstream \<times> index_read list) option"
  fix d token tok ls rd r
  assume IH: "\<And>d token tok ls rd r. st' d token tok ls rd = Some r \<Longrightarrow>
     r = Inl e \<longrightarrow> (\<exists>n j. e = StringIndexOutOfRange n j)"
  assume body: "(case str_at token (last_index token) of
        Inl e \<Rightarrow> Some (Inl e)
      | Inr c \<Rightarrow>
          if c = dquote then Some (Inr (tok, ls, rd @ [(length token, last_index token)]))
          else (case getline d ls token of
                  (token', ls') \<Rightarrow>
                    st' d token' (tok @ d # token') ls'
                      (rd @ [(length token, last_index token)]))) = Some r"
  show "r = Inl e \<longrightarrow> (\<exists>n j. e = StringIndexOutOfRange n j)"
  proof (cases "str_at token (last_index token)")
    case (Inl e')
    with body str_at_error[OF Inl] show ?thesis by auto
  next
    case (Inr c)
    with body IH show ?thesis
      by (cases "getline d ls token") (auto split: if_splits)
  qed
next
  show "stitch d token tok ls rd = Some r" if "stitch d token tok ls rd = Some r"
    using that .
qed

lemma next_token_error:
  "next_token d ls = Some (Inl e) \<Longrightarrow> \<exists>n j. e = StringIndexOutOfRange n j"
proof -
  assume a: "next_token d ls = Some (Inl e)"
  obtain token0 ls' where g: "getline d ls [] = (token0, ls')"
    by (cases "getline d ls []")
  obtain res rd where t: "leading_quote_test (trim token0) = (res, rd)"
    by (cases "leading_quote_test (trim token0)")
  show ?thesis
  proof (cases res)
    case (Inl e')
    with a g t have "e' = e" by (simp add: next_token_def)
    moreover from t Inl have "\<exists>n j. e' = StringIndexOutOfRange n j"
      by (auto simp: leading_quote_test_def split: sum.splits if_splits dest: str_at_error)
    ultimately show ?thesis by simp
  next
    case (Inr b)
    with a g t show ?thesis
      using stitch_error[of d "trim token0" "trim token0" ls' rd "Inl e" e]
      by (cases b) (auto simp: next_token_def)
  qed
qed

text \<open>
  An invariant \<open>I\<close> of the loop state that every action keeps, also when it throws, holds
  of the state in which the token loop ends; what it throws is an index error of the
  tokenizer or an error \<open>E\<close> of the action.
\<close>

lemma token_loop_invariant:
  assumes run: "token_loop d act ls st = Some r"
    and init: "I st"
    and step: "\<And>token s. I s \<Longrightarrow>
                 (case act token s of Inl (e, s') \<Rightarrow> I s' \<and> E e | Inr s' \<Rightarrow> I s')"
    and idx: "\<And>n j. E (StringIndexOutOfRange n j)"
  shows "case r of Inl (e, s') \<Rightarrow> I s' \<and> E e | Inr s' \<Rightarrow> I s'"
proof -
  have "act = act \<longrightarrow> I st \<longrightarrow> (case r of Inl (e, s') \<Rightarrow> I s' \<and> E e | Inr s' \<Rightarrow> I s')"
  proof (rule token_loop.raw_induct
      [where P = "\<lambda>d' act' ls st r. act' = act \<longrightarrow> I st \<longrightarrow>
                    (case r of Inl (e, s') \<Rightarrow> I s' \<and> E e | Inr s' \<Rightarrow> I s')"])
    fix tl' :: "char \<Rightarrow> (string \<Rightarrow> 'a \<Rightarrow> error \<times> 'a + 'a) \<Rightarrow> sstream \<Rightarrow> 'a
                  \<Rightarrow> (error \<times> 'a + 'a) option"
    fix d' act' ls st r
    assume IH: "\<And>d' act' ls st r. tl' d' act' ls st = Some r \<Longrightarrow>
       act' = act \<longrightarrow> I st \<longrightarrow> (case r of Inl (e, s') \<Rightarrow> I s' \<and> E e | Inr s' \<Rightarrow> I s')"
    assume body: "(if \<not> good ls then Some (Inr st)
        else (case next_token d' ls of
                None \<Rightarrow> None
              | Some (Inl e) \<Rightarrow> Some (Inl (e, st))
              | Some (Inr (token, ls', rd)) \<Rightarrow>
                  (case act' token st of
                     Inl es \<Rightarrow> Some (Inl es)
                   | Inr st' \<Rightarrow> tl' d' act' ls' st'))) = Some r"
    show "act' = act \<longrightarrow> I st \<longrightarrow>
            (case r of Inl (e, s') \<Rightarrow> I s' \<and> E e | Inr s' \<Rightarrow> I s')"
    proof (intro impI)
      assume eq: "act' = act" and inv: "I st"
      show "case r of Inl (e, s') \<Rightarrow> I s' \<and> E e | Inr s' \<Rightarrow> I s'"
      proof (cases "good ls")
        case False
        with body inv show ?thesis by auto
      next
        case True
        show ?thesis
        proof (cases "next_token d' ls")
          case None
          with body True show ?thesis by simp
        next
          case (Some nt)
          show ?thesis
          proof (cases nt)
            case (Inl e)
            with Some have "\<exists>n j. e = StringIndexOutOfRange n j"
              using next_token_error by blast
            with body True Some Inl inv idx show ?thesis by auto
          next
            case (Inr x)
            obtain token ls' rd where x: "x = (token, ls', rd)"
              by (cases x)
            show ?thesis
            proof (cases "act token st")
              case (Inl es)
              with body True Some Inr x eq have "r = Inl es" by simp
              with step[OF inv, of token] Inl show ?thesis by (cases es) simp
            next
              case act_ok: (Inr st')
              with body True Some Inr x eq have "tl' d' act' ls' st' = Some r" by simp
              moreover from step[OF inv, of token] act_ok have "I st'" by simp
              ultimately show ?thesis using IH eq by blast
            qed
          qed
        qed
      qed
    qed
  next
    show "token_loop d act ls st = Some r" by (rule run)
  qed
  with init show ?thesis by simp
qed

subsection \<open>Dimension discovery\<close>

lemma check_dimensionality_Inr:
  "check_dimensionality n info = Inr info' \<Longrightarrow>
   Dimensionality info' = n \<and> policy info' = policy info
   \<and> (Dimensionality info = 0 \<or> Dimensionality info = n)"
  by (auto simp: check_dimensionality_def SetDimensionality_def split: if_splits)

lemma check_dimensionality_Inl:
  "check_dimensionality n info = Inl es \<Longrightarrow>
   es = (DimensionalityMismatch (Dimensionality info) n, info)
   \<and> Dimensionality info \<noteq> 0 \<and> Dimensionality info \<noteq> n"
  by (auto simp: check_dimensionality_def split: if_splits)

lemma check_dimensionality_again:
  "check_dimensionality n info = Inr info' \<Longrightarrow> check_dimensionality n info' = Inr info'"
  by (auto simp: check_dimensionality_def SetDimensionality_def split: if_splits)

lemma first_pass_keeps_Dimensionality:
  "token_loop d (first_pass pol pos) ls info = Some r \<Longrightarrow>
   (case r of Inl (e, info') \<Rightarrow> Dimensionality info' = Dimensionality info
            | Inr info' \<Rightarrow> Dimensionality info' = Dimensionality info)"
  using token_loop_invariant
    [where I = "\<lambda>i. Dimensionality i = Dimensionality info" and E = "\<lambda>e. True",
     of d "first_pass pol pos" ls info r]
  by (auto simp: first_pass_def split: sum.splits)

lemma first_pass_dim_keeps_Dimensionality:
  "token_loop d (first_pass_dim pol) ls (info, n) = Some r \<Longrightarrow>
   (case r of Inl (e, s) \<Rightarrow> Dimensionality (fst s) = Dimensionality info
            | Inr s \<Rightarrow> Dimensionality (fst s) = Dimensionality info)"
  using token_loop_invariant
    [where I = "\<lambda>s. Dimensionality (fst s) = Dimensionality info" and E = "\<lambda>e. True",
     of d "first_pass_dim pol" ls "(info, n)" r]
  by (auto simp: first_pass_dim_def split: sum.splits prod.splits)

lemma GetMatrixSize_lines_Dimensionality:
  "GetMatrixSize_lines pol d f ls rows cols info = Some r \<Longrightarrow>
   Dimensionality (mapper_after r) = Dimensionality info"
proof (induction ls arbitrary: rows cols info)
  case Nil
  then show ?case by (auto simp: mapper_after_def)
next
  case (Cons l ls)
  show ?case
  proof (cases "NeedsFirstPass pol")
    case False
    with Cons show ?thesis by (simp add: Let_def)
  next
    case True
    show ?thesis
    proof (cases "trim l = []")
      case blank: True
      with Cons.prems True show ?thesis by (auto simp: Let_def mapper_after_def)
    next
      case data: False
      show ?thesis
      proof (cases "token_loop d (first_pass pol rows) (sstream_str (trim l)) info")
        case None
        with Cons.prems True data show ?thesis by (simp add: Let_def)
      next
        case (Some r0)
        note keep = first_pass_keeps_Dimensionality[OF Some]
        show ?thesis
        proof (cases r0)
          case (Inl es)
          with Cons.prems True data Some keep show ?thesis
            by (cases es) (auto simp: Let_def mapper_after_def)
        next
          case (Inr info')
          with Cons.prems True data Some
          have "GetMatrixSize_lines pol d f ls (rows + 1)
                  (if rows + 1 = 1 then snd (GetNonNumericMatSize f d) else cols) info' = Some r"
            by (simp add: Let_def)
          from Cons.IH[OF this] keep Inr show ?thesis by simp
        qed
      qed
    qed
  qed
qed

lemma GetMatrixSize_lines_result:
  "GetMatrixSize_lines pol d f ls rows cols info = Some (Inr ((rows', cols'), info')) \<Longrightarrow>
   rows' = rows + (if NeedsFirstPass pol then min (length ls) (Suc (lines_before_blank ls))
                   else length ls)
   \<and> cols' = (if rows = 0 \<and> ls \<noteq> [] then snd (GetNonNumericMatSize f d) else cols)"
proof (induction ls arbitrary: rows cols info)
  case Nil
  then show ?case by (simp add: lines_before_blank_def)
next
  case (Cons l ls)
  show ?case
  proof (cases "NeedsFirstPass pol")
    case False
    with Cons.prems
    have "GetMatrixSize_lines pol d f ls (rows + 1)
            (if rows + 1 = 1 then snd (GetNonNumericMatSize f d) else cols) info
          = Some (Inr ((rows', cols'), info'))"
      by (simp add: Let_def)
    from Cons.IH[OF this] False show ?thesis by simp
  next
    case True
    show ?thesis
    proof (cases "trim l = []")
      case blank: True
      with Cons.prems True show ?thesis
        by (auto simp: Let_def lines_before_blank_def)
    next
      case data: False
      show ?thesis
      proof (cases "token_loop d (first_pass pol rows) (sstream_str (trim l)) info")
        case None
        with Cons.prems True data show ?thesis by (simp add: Let_def)
      next
        case (Some r0)
        show ?thesis
        proof (cases r0)
          case (Inl es)
          with Cons.prems True data Some show ?thesis by (simp add: Let_def)
        next
          case (Inr info1)
          with Cons.prems True data Some
          have "GetMatrixSize_lines pol d f ls (rows + 1)
                  (if rows + 1 = 1 then snd (GetNonNumericMatSize f d) else cols) info1
                = Some (Inr ((rows', cols'), info'))"
            by (simp add: Let_def)
          from Cons.IH[OF this] True data show ?thesis
            by (simp add: lines_before_blank_def)
        qed
      qed
    qed
  qed
qed

lemma GetTransposeMatrixSize_lines_later_Dimensionality:
  "cols \<noteq> 0 \<Longrightarrow> GetTransposeMatrixSize_lines pol d f ls rows cols info = Some r \<Longrightarrow>
   Dimensionality (mapper_after r) = Dimensionality info"
proof (induction ls arbitrary: rows cols info)
  case Nil
  then show ?case by (auto simp: mapper_after_def)
next
  case (Cons l ls)
  show ?case
  proof (cases "NeedsFirstPass pol")
    case False
    with Cons.prems have "GetTransposeMatrixSize_lines pol d f ls rows (cols + 1) info = Some r"
      by simp
    with Cons.IH[of "cols + 1" rows info] show ?thesis by simp
  next
    case True
    show ?thesis
    proof (cases "trim l = []")
      case blank: True
      with Cons.prems True show ?thesis by (auto simp: mapper_after_def)
    next
      case data: False
      show ?thesis
      proof (cases "token_loop d (first_pass_dim pol) (sstream_str (trim l)) (info, 0)")
        case None
        with Cons.prems True data show ?thesis by simp
      next
        case (Some r0)
        note keep = first_pass_dim_keeps_Dimensionality[OF Some]
        show ?thesis
        proof (cases r0)
          case (Inl es)
          with Cons.prems True data Some keep show ?thesis
            by (cases es) (auto simp: mapper_after_def)
        next
          case (Inr s)
          with Cons.prems True data Some
          have "GetTransposeMatrixSize_lines pol d f ls rows (cols + 1) (fst s) = Some r"
            by simp
          with Cons.IH[of "cols + 1" rows "fst s"] keep Inr show ?thesis by simp
        qed
      qed
    qed
  qed
qed

lemma GetTransposeMatrixSize_mismatch:
  "f \<noteq> [] \<Longrightarrow> Dimensionality info \<noteq> 0 \<Longrightarrow>
   Dimensionality info \<noteq> snd (GetNonNumericMatSize f d) \<Longrightarrow>
   GetTransposeMatrixSize pol d f info
     = Some (Inl (DimensionalityMismatch (Dimensionality info) (snd (GetNonNumericMatSize f d)),
                  info))"
  by (cases f) (simp_all add: GetTransposeMatrixSize_def check_dimensionality_def)

lemma GetTransposeMatrixSize_seeds:
  assumes "f \<noteq> []" and "Dimensionality info = 0"
    and run: "GetTransposeMatrixSize pol d f info = Some r"
  shows "Dimensionality (mapper_after r) = snd (GetNonNumericMatSize f d)"
proof -
  from \<open>f \<noteq> []\<close> obtain l ls where f: "f = l # ls"
    by (cases f) auto
  let ?n = "snd (GetNonNumericMatSize f d)"
  let ?info1 = "SetDimensionality ?n info"
  have chk: "check_dimensionality ?n info = Inr ?info1"
    using assms(2) by (simp add: check_dimensionality_def)
  have d1: "Dimensionality ?info1 = ?n"
    by (simp add: SetDimensionality_def)
  show ?thesis
  proof (cases "NeedsFirstPass pol")
    case False
    with run f chk have "GetTransposeMatrixSize_lines pol d f ls ?n 1 ?info1 = Some r"
      by (simp add: GetTransposeMatrixSize_def)
    from GetTransposeMatrixSize_lines_later_Dimensionality[OF _ this] d1 show ?thesis by simp
  next
    case True
    show ?thesis
    proof (cases "trim l = []")
      case blank: True
      with run f chk True d1 show ?thesis
        by (auto simp: GetTransposeMatrixSize_def mapper_after_def)
    next
      case data: False
      show ?thesis
      proof (cases "token_loop d (first_pass_dim pol) (sstream_str (trim l)) (?info1, 0)")
        case None
        with run f chk True data show ?thesis by (simp add: GetTransposeMatrixSize_def)
      next
        case (Some r0)
        note keep = first_pass_dim_keeps_Dimensionality[OF Some]
        show ?thesis
        proof (cases r0)
          case (Inl es)
          with run f chk True data Some keep d1 show ?thesis
            by (cases es) (auto simp: GetTransposeMatrixSize_def mapper_after_def)
        next
          case (Inr s)
          with run f chk True data Some
          have "GetTransposeMatrixSize_lines pol d f ls ?n 1 (fst s) = Some r"
            by (simp add: GetTransposeMatrixSize_def)
          from GetTransposeMatrixSize_lines_later_Dimensionality[OF _ this] keep Inr d1
          show ?thesis by simp
        qed
      qed
    qed
  qed
qed

lemma GetMatrixSize_mismatch:
  "Dimensionality info \<noteq> 0 \<Longrightarrow> Dimensionality info \<noteq> length f \<Longrightarrow>
   GetMatrixSize pol d f info
     = Some (Inl (DimensionalityMismatch (Dimensionality info) (length f), info))"
  by (simp add: GetMatrixSize_def check_dimensionality_def)

lemma GetMatrixSize_seeds:
  assumes "Dimensionality info = 0" and run: "GetMatrixSize pol d f info = Some r"
  shows "Dimensionality (mapper_after r) = length f"
proof -
  let ?info1 = "SetDimensionality (length f) info"
  have chk: "check_dimensionality (length f) info = Inr ?info1"
    using assms(1) by (simp add: check_dimensionality_def)
  with run check_dimensionality_again[OF chk]
  have "GetMatrixSize_lines pol d f f 0 0 ?info1 = Some r"
    by (simp add: GetMatrixSize_def)
  from GetMatrixSize_lines_Dimensionality[OF this] show ?thesis
    by (simp add: SetDimensionality_def)
qed

text \<open>Without a first pass the second loop only counts: discovery always returns.\<close>

lemma GetMatrixSize_lines_no_first_pass:
  "\<not> NeedsFirstPass pol \<Longrightarrow>
   GetMatrixSize_lines pol d f ls rows cols info
     = Some (Inr ((rows + length ls,
                   if rows = 0 \<and> ls \<noteq> [] then snd (GetNonNumericMatSize f d) else cols),
                  info))"
  by (induction ls arbitrary: rows cols) (simp_all add: Let_def)

lemma GetTransposeMatrixSize_lines_no_first_pass:
  "\<not> NeedsFirstPass pol \<Longrightarrow> cols \<noteq> 0 \<Longrightarrow>
   GetTransposeMatrixSize_lines pol d f ls rows cols info
     = Some (Inr ((rows, cols + length ls), info))"
  by (induction ls arbitrary: cols) simp_all

lemma GetMatrixSize_no_first_pass:
  "\<not> NeedsFirstPass pol \<Longrightarrow> Dimensionality info = 0 \<Longrightarrow>
   GetMatrixSize pol d f info
     = Some (Inr ((length f, if f = [] then 0 else snd (GetNonNumericMatSize f d)),
                  SetDimensionality (length f) info))"
  by (simp add: GetMatrixSize_def check_dimensionality_def SetDimensionality_def
      GetMatrixSize_lines_no_first_pass)

lemma GetTransposeMatrixSize_no_first_pass:
  "\<not> NeedsFirstPass pol \<Longrightarrow> f \<noteq> [] \<Longrightarrow> Dimensionality info = 0 \<Longrightarrow>
   GetTransposeMatrixSize pol d f info
     = Some (Inr ((snd (GetNonNumericMatSize f d), length f),
                  SetDimensionality (snd (GetNonNumericMatSize f d)) info))"
  by (cases f)
    (simp_all add: GetTransposeMatrixSize_def check_dimensionality_def
      GetTransposeMatrixSize_lines_no_first_pass)

lemma GetMatrixSize_rows:
  "GetMatrixSize pol d f info = Some (Inr ((rows, cols), info')) \<Longrightarrow>
   rows = (if NeedsFirstPass pol then min (length f) (Suc (lines_before_blank f))
           else length f)"
proof -
  assume run: "GetMatrixSize pol d f info = Some (Inr ((rows, cols), info'))"
  then obtain info1 where chk: "check_dimensionality (length f) info = Inr info1"
    by (cases "check_dimensionality (length f) info") (auto simp: GetMatrixSize_def)
  with run check_dimensionality_again[OF chk]
  have "GetMatrixSize_lines pol d f f 0 0 info1 = Some (Inr ((rows, cols), info'))"
    by (simp add: GetMatrixSize_def)
  from GetMatrixSize_lines_result[OF this] show ?thesis by simp
qed

subsection \<open>Matrix population\<close>

lemma Mat_assign_Inr:
  "Mat_assign M row col v = Inr M' \<Longrightarrow>
   n_rows M' = n_rows M \<and> n_cols M' = n_cols M
   \<and> (\<forall>r c. r \<noteq> row \<longrightarrow> cells M' (r, c) = cells M (r, c))
   \<and> (\<forall>r c. c \<noteq> col \<longrightarrow> cells M' (r, c) = cells M (r, c))"
  by (auto simp: Mat_assign_def split: if_splits)

lemma Mat_assign_Inl: "Mat_assign M row col v = Inl e \<Longrightarrow> e = MatIndexOutOfBounds row col"
  by (auto simp: Mat_assign_def split: if_splits)

text \<open>Neither store operation throws a dimensionality mismatch.\<close>

lemma NonTranspose_store_error:
  "NonTranspose_store pol row token s = Inl (e, s') \<Longrightarrow> e \<noteq> DimensionalityMismatch a b"
  by (auto simp: NonTranspose_store_def split: prod.splits sum.splits dest: Mat_assign_Inl)

lemma Transpose_store_error:
  "Transpose_store pol col token s = Inl (e, s') \<Longrightarrow> e \<noteq> DimensionalityMismatch a b"
  by (auto simp: Transpose_store_def split: prod.splits sum.splits dest: Mat_assign_Inl)

lemma NonTransposeParse_lines_error:
  "NonTransposeParse_lines pol d ls cols row M info = Some (Inl (e, s)) \<Longrightarrow>
   e \<noteq> DimensionalityMismatch a b"
proof (induction ls arbitrary: row M info)
  case Nil
  then show ?case by simp
next
  case (Cons l ls)
  show ?case
  proof (cases "trim l = []")
    case True
    with Cons.prems show ?thesis by simp
  next
    case data: False
    show ?thesis
    proof (cases "token_loop d (NonTranspose_store pol row) (sstream_str (trim l)) (M, info, 0)")
      case None
      with Cons.prems data show ?thesis by simp
    next
      case (Some r0)
      have inv: "case r0 of Inl (e, s') \<Rightarrow> True \<and> e \<noteq> DimensionalityMismatch a b
                 | Inr s' \<Rightarrow> True"
        by (rule token_loop_invariant[OF Some, where I = "\<lambda>s. True"])
          (auto split: sum.splits dest: NonTranspose_store_error)
      show ?thesis
      proof (cases r0)
        case (Inl es)
        with Cons.prems data Some inv show ?thesis
          by (cases es) auto
      next
        case (Inr s1)
        with Cons.prems data Some Cons.IH show ?thesis
          by (auto split: if_splits)
      qed
    qed
  qed
qed

lemma TransposeParse_lines_error:
  "TransposeParse_lines pol d ls rows col M info = Some (Inl (e, s)) \<Longrightarrow>
   e \<noteq> DimensionalityMismatch a b"
proof (induction ls arbitrary: col M info)
  case Nil
  then show ?case by simp
next
  case (Cons l ls)
  show ?case
  proof (cases "trim l = []")
    case True
    with Cons.prems show ?thesis by simp
  next
    case data: False
    show ?thesis
    proof (cases "token_loop d (Transpose_store pol col) (sstream_str (trim l)) (M, info, 0)")
      case None
      with Cons.prems data show ?thesis by simp
    next
      case (Some r0)
      have inv: "case r0 of Inl (e, s') \<Rightarrow> True \<and> e \<noteq> DimensionalityMismatch a b
                 | Inr s' \<Rightarrow> True"
        by (rule token_loop_invariant[OF Some, where I = "\<lambda>s. True"])
          (auto split: sum.splits dest: Transpose_store_error)
      show ?thesis
      proof (cases r0)
        case (Inl es)
        with Cons.prems data Some inv show ?thesis
          by (cases es) auto
      next
        case (Inr s1)
        with Cons.prems data Some Cons.IH show ?thesis
          by (auto split: if_splits)
      qed
    qed
  qed
qed

text \<open>Filling row \<open>row\<close> keeps the size of the matrix and every other row.\<close>

lemma NonTranspose_store_row:
  fixes M :: "'v Mat" and info :: "'p DatasetMapper"
  assumes "token_loop d (NonTranspose_store pol row) ls (M, info, col) = Some (Inr s)"
  shows "n_rows (fst s) = n_rows M \<and> n_cols (fst s) = n_cols M
         \<and> (\<forall>r c. r \<noteq> row \<longrightarrow> cells (fst s) (r, c) = cells M (r, c))"
proof -
  let ?I = "\<lambda>s :: 'v Mat \<times> 'p DatasetMapper \<times> nat.
              n_rows (fst s) = n_rows M \<and> n_cols (fst s) = n_cols M
              \<and> (\<forall>r c. r \<noteq> row \<longrightarrow> cells (fst s) (r, c) = cells M (r, c))"
  have init: "?I (M, info, col)"
    by simp
  have step: "case NonTranspose_store pol row token s of
                Inl (e, s') \<Rightarrow> ?I s' \<and> True | Inr s' \<Rightarrow> ?I s'"
    if "?I s" for token and s :: "'v Mat \<times> 'p DatasetMapper \<times> nat"
    using that
    by (auto simp: NonTranspose_store_def split: prod.splits sum.splits dest!: Mat_assign_Inr)
  from token_loop_invariant[of d "NonTranspose_store pol row" ls "(M, info, col)" "Inr s"
      ?I "\<lambda>e. True", OF assms init step]
  show ?thesis by simp
qed

lemma NonTransposeParse_lines_untouched:
  "NonTransposeParse_lines pol d ls cols row M info = Some (Inr (M', info')) \<Longrightarrow>
   n_rows M' = n_rows M \<and> n_cols M' = n_cols M
   \<and> (\<forall>r c. row + lines_before_blank ls \<le> r \<longrightarrow> cells M' (r, c) = cells M (r, c))"
proof (induction ls arbitrary: row M info)
  case Nil
  then show ?case by simp
next
  case (Cons l ls)
  show ?case
  proof (cases "trim l = []")
    case True
    with Cons.prems show ?thesis by simp
  next
    case data: False
    show ?thesis
    proof (cases "token_loop d (NonTranspose_store pol row) (sstream_str (trim l)) (M, info, 0)")
      case None
      with Cons.prems data show ?thesis by simp
    next
      case (Some r0)
      show ?thesis
      proof (cases r0)
        case (Inl es)
        with Cons.prems data Some show ?thesis
          by (cases es) auto
      next
        case (Inr s1)
        from Some Inr have "token_loop d (NonTranspose_store pol row) (sstream_str (trim l))
                              (M, info, 0) = Some (Inr s1)"
          by simp
        note row = NonTranspose_store_row[OF this]
        from Cons.prems data Some Inr
        have rest: "NonTransposeParse_lines pol d ls cols (row + 1) (fst s1) (fst (snd s1))
                      = Some (Inr (M', info'))"
          by (auto split: if_splits)
        from Cons.IH[OF rest] row data show ?thesis
          by (auto simp: lines_before_blank_def)
      qed
    qed
  qed
qed

lemma blank_last_line:
  "f \<noteq> [] \<Longrightarrow> trim (last f) = [] \<Longrightarrow> lines_before_blank f < length f"
proof -
  assume "f \<noteq> []" and "trim (last f) = []"
  then have "\<not> (\<forall>l \<in> set f. trim l \<noteq> [])"
    using last_in_set by blast
  then have "takeWhile (\<lambda>l. trim l \<noteq> []) f \<noteq> f"
    by (simp add: takeWhile_eq_all_conv)
  moreover have "length (takeWhile (\<lambda>l. trim l \<noteq> []) f) \<le> length f"
    by (rule length_takeWhile_le)
  ultimately show ?thesis
    unfolding lines_before_blank_def
    by (metis le_neq_implies_less takeWhile_eq_take take_all_iff order_refl)
qed

subsection \<open>The calls of the preliminary hook\<close>

text \<open>
  A token loop whose action never throws ends in the state obtained by folding the action
  over the tokens of the line.
\<close>

lemma token_loop_fold_aux:
  assumes act: "\<And>token s. act token s = Inr (g token s)"
  shows "token_loop d' act' ls st = Some r \<Longrightarrow>
         d' = d \<and> act' = act \<and> (\<exists>x. r = Inr x) \<longrightarrow>
           (\<exists>ts. r = Inr (foldl (\<lambda>s token. g token s) st ts)
              \<and> (\<forall>acc. token_loop d collect ls acc = Some (Inr (acc @ ts))))"
proof (rule token_loop.raw_induct
    [where P = "\<lambda>d' act' ls st r. d' = d \<and> act' = act \<and> (\<exists>x. r = Inr x) \<longrightarrow>
          (\<exists>ts. r = Inr (foldl (\<lambda>s token. g token s) st ts)
             \<and> (\<forall>acc. token_loop d collect ls acc = Some (Inr (acc @ ts))))"])
  fix tl' :: "char \<Rightarrow> (string \<Rightarrow> 'a \<Rightarrow> error \<times> 'a + 'a) \<Rightarrow> sstream \<Rightarrow> 'a
                \<Rightarrow> (error \<times> 'a + 'a) option"
  fix d' act' ls st r
  assume IH: "\<And>d' act' ls st r. tl' d' act' ls st = Some r \<Longrightarrow>
     d' = d \<and> act' = act \<and> (\<exists>x. r = Inr x) \<longrightarrow>
        (\<exists>ts. r = Inr (foldl (\<lambda>s token. g token s) st ts)
           \<and> (\<forall>acc. token_loop d collect ls acc = Some (Inr (acc @ ts))))"
  assume body: "(if \<not> good ls then Some (Inr st)
      else (case next_token d' ls of
              None \<Rightarrow> None
            | Some (Inl e) \<Rightarrow> Some (Inl (e, st))
            | Some (Inr (token, ls', rd)) \<Rightarrow>
                (case act' token st of
                   Inl es \<Rightarrow> Some (Inl es)
                 | Inr st' \<Rightarrow> tl' d' act' ls' st'))) = Some r"
  show "d' = d \<and> act' = act \<and> (\<exists>x. r = Inr x) \<longrightarrow>
        (\<exists>ts. r = Inr (foldl (\<lambda>s token. g token s) st ts)
           \<and> (\<forall>acc. token_loop d collect ls acc = Some (Inr (acc @ ts))))"
  proof (intro impI, elim conjE exE)
    fix x
    assume dd: "d' = d" and aa: "act' = act" and r: "r = Inr x"
    show "\<exists>ts. r = Inr (foldl (\<lambda>s token. g token s) st ts)
            \<and> (\<forall>acc. token_loop d collect ls acc = Some (Inr (acc @ ts)))"
    proof (cases "good ls")
      case False
      with body have "r = Inr st" by simp
      with False have "r = Inr (foldl (\<lambda>s token. g token s) st [])
            \<and> (\<forall>acc. token_loop d collect ls acc = Some (Inr (acc @ [])))"
        by (simp add: token_loop_not_good)
      then show ?thesis by blast
    next
      case True
      from body True r obtain token ls' rd
        where nt: "next_token d ls = Some (Inr (token, ls', rd))"
        using dd by (auto split: option.splits sum.splits)
      with body True dd aa act have "tl' d act ls' (g token st) = Some r"
        by simp
      from IH[OF this] r obtain ts
        where ts: "r = Inr (foldl (\<lambda>s token. g token s) (g token st) ts)"
          and col: "\<forall>acc. token_loop d collect ls' acc = Some (Inr (acc @ ts))"
        by blast
      have "\<forall>acc. token_loop d collect ls acc = Some (Inr (acc @ token # ts))"
        using True nt col by (simp add: token_loop_good collect_def)
      with ts have "r = Inr (foldl (\<lambda>s token. g token s) st (token # ts))
            \<and> (\<forall>acc. token_loop d collect ls acc = Some (Inr (acc @ token # ts)))"
        by simp
      then show ?thesis by blast
    qed
  qed
next
  show "token_loop d' act' ls st = Some r" if "token_loop d' act' ls st = Some r"
    using that .
qed

lemma token_loop_fold:
  assumes run: "token_loop d act ls st = Some (Inr st')"
    and act: "\<And>token s. act token s = Inr (g token s)"
  shows "\<exists>ts. st' = foldl (\<lambda>s token. g token s) st ts
           \<and> (\<forall>acc. token_loop d collect ls acc = Some (Inr (acc @ ts)))"
  using token_loop_fold_aux[of act g d act ls st "Inr st'" d, OF act run] by simp

lemma apply_calls_append:
  "apply_calls pol (xs @ ys) p = apply_calls pol ys (apply_calls pol xs p)"
  by (simp add: apply_calls_def)

lemma fold_first_pass:
  "foldl (\<lambda>s token. s\<lparr>policy := MapFirstPass pol token i (policy s)\<rparr>) info ts
     = info\<lparr>policy := apply_calls pol (map (\<lambda>token. (token, i)) ts) (policy info)\<rparr>"
  by (induction ts arbitrary: info) (simp_all add: apply_calls_def)

lemma fold_first_pass_dim:
  "foldl (\<lambda>s token. (fst s\<lparr>policy := MapFirstPass pol token (snd s) (policy (fst s))\<rparr>,
                       Suc (snd s))) (info, k) ts
     = (info\<lparr>policy := apply_calls pol (zip ts [k ..< k + length ts]) (policy info)\<rparr>,
        k + length ts)"
proof (induction ts arbitrary: info k)
  case Nil
  then show ?case by (simp add: apply_calls_def)
next
  case (Cons t ts)
  have "[k ..< k + length (t # ts)] = k # [Suc k ..< Suc k + length ts]"
    using upt_conv_Cons[of k "k + Suc (length ts)"] by simp
  with Cons[of "info\<lparr>policy := MapFirstPass pol t k (policy info)\<rparr>" "Suc k"]
  show ?case by (simp add: apply_calls_def)
qed

lemma first_pass_line:
  assumes "token_loop d (first_pass pol i) (sstream_str line) info = Some (Inr info')"
  shows "info' = info\<lparr>policy :=
            apply_calls pol (map (\<lambda>token. (token, i)) (line_tokens d line)) (policy info)\<rparr>"
proof -
  from token_loop_fold[OF assms,
      of "\<lambda>token s. s\<lparr>policy := MapFirstPass pol token i (policy s)\<rparr>"]
  obtain ts where st: "info' = foldl (\<lambda>s token. s\<lparr>policy := MapFirstPass pol token i (policy s)\<rparr>)
                                 info ts"
    and col: "\<forall>acc. token_loop d collect (sstream_str line) acc = Some (Inr (acc @ ts))"
    by (auto simp: first_pass_def)
  from col have "token_loop d collect (sstream_str line) [] = Some (Inr ts)"
    by (metis append_Nil)
  then have "line_tokens d line = ts"
    by (simp add: line_tokens_def)
  with st show ?thesis
    by (simp add: fold_first_pass)
qed

lemma first_pass_dim_line:
  assumes "token_loop d (first_pass_dim pol) (sstream_str line) (info, 0) = Some (Inr s)"
  shows "fst s = info\<lparr>policy :=
            apply_calls pol (zip (line_tokens d line) [0 ..< length (line_tokens d line)])
              (policy info)\<rparr>"
proof -
  from token_loop_fold[OF assms,
      of "\<lambda>token s. (fst s\<lparr>policy := MapFirstPass pol token (snd s) (policy (fst s))\<rparr>,
                       snd s + 1)"]
  obtain ts
    where st: "s = foldl (\<lambda>s token. (fst s\<lparr>policy := MapFirstPass pol token (snd s)
                                                       (policy (fst s))\<rparr>, snd s + 1))
                     (info, 0) ts"
    and col: "\<forall>acc. token_loop d collect (sstream_str line) acc = Some (Inr (acc @ ts))"
    by (auto simp: first_pass_dim_def split: prod.splits)
  from col have "token_loop d collect (sstream_str line) [] = Some (Inr ts)"
    by (metis append_Nil)
  then have "line_tokens d line = ts"
    by (simp add: line_tokens_def)
  with st show ?thesis
    by (simp add: fold_first_pass_dim)
qed

lemma GetMatrixSize_lines_calls:
  "NeedsFirstPass pol \<Longrightarrow>
   GetMatrixSize_lines pol d f ls rows cols info = Some (Inr (rc, info')) \<Longrightarrow>
   policy info' = apply_calls pol (calls_by_line d rows ls) (policy info)"
proof (induction ls arbitrary: rows cols info)
  case Nil
  then show ?case by (simp add: apply_calls_def)
next
  case (Cons l ls)
  show ?case
  proof (cases "trim l = []")
    case True
    with Cons.prems show ?thesis by (auto simp: Let_def apply_calls_def)
  next
    case data: False
    show ?thesis
    proof (cases "token_loop d (first_pass pol rows) (sstream_str (trim l)) info")
      case None
      with Cons.prems data show ?thesis by (simp add: Let_def)
    next
      case (Some r0)
      show ?thesis
      proof (cases r0)
        case (Inl es)
        with Cons.prems data Some show ?thesis by (simp add: Let_def)
      next
        case (Inr info1)
        with Some have "token_loop d (first_pass pol rows) (sstream_str (trim l)) info
                          = Some (Inr info1)"
          by simp
        note line = first_pass_line[OF this]
        from Cons.prems data Some Inr
        have "GetMatrixSize_lines pol d f ls (Suc rows)
                (if rows + 1 = 1 then snd (GetNonNumericMatSize f d) else cols) info1
              = Some (Inr (rc, info'))"
          by (simp add: Let_def)
        from Cons.IH[OF Cons.prems(1) this] line data show ?thesis
          by (simp add: apply_calls_append)
      qed
    qed
  qed
qed

lemma GetTransposeMatrixSize_lines_calls:
  "NeedsFirstPass pol \<Longrightarrow>
   GetTransposeMatrixSize_lines pol d f ls rows cols info = Some (Inr (rc, info')) \<Longrightarrow>
   policy info' = apply_calls pol (calls_by_field d ls) (policy info)"
proof (induction ls arbitrary: rows cols info)
  case Nil
  then show ?case by (simp add: apply_calls_def)
next
  case (Cons l ls)
  let ?chk = "if cols + 1 = 1
            then (case check_dimensionality (snd (GetNonNumericMatSize f d)) info of
                    Inl e \<Rightarrow> Inl e
                  | Inr info1 \<Rightarrow> Inr (snd (GetNonNumericMatSize f d), info1))
            else Inr (rows, info)"
  from Cons.prems(2) obtain rows1 info1 where chk: "?chk = Inr (rows1, info1)"
    by (cases ?chk) auto
  then have pol1: "policy info1 = policy info"
    by (auto split: if_splits sum.splits dest: check_dimensionality_Inr)
  show ?case
  proof (cases "trim l = []")
    case True
    with Cons.prems chk pol1 show ?thesis by (auto simp: apply_calls_def)
  next
    case data: False
    show ?thesis
    proof (cases "token_loop d (first_pass_dim pol) (sstream_str (trim l)) (info1, 0)")
      case None
      with Cons.prems data chk show ?thesis by simp
    next
      case (Some r0)
      show ?thesis
      proof (cases r0)
        case (Inl es)
        with Cons.prems data Some chk show ?thesis by (cases es) simp
      next
        case (Inr s)
        with Some have "token_loop d (first_pass_dim pol) (sstream_str (trim l)) (info1, 0)
                          = Some (Inr s)"
          by simp
        note line = first_pass_dim_line[OF this]
        from Cons.prems data Some Inr chk
        have "GetTransposeMatrixSize_lines pol d f ls rows1 (cols + 1) (fst s)
              = Some (Inr (rc, info'))"
          by simp
        from Cons.IH[OF Cons.prems(1) this] line data pol1 show ?thesis
          by (simp add: apply_calls_append)
      qed
    qed
  qed
qed

subsection \<open>Loads with an unassigned delimiter\<close>

text \<open>
  Where the source does not come to use \<open>delim\<close>, the parsers do the same for every
  delimiter, and the same with none.
\<close>

lemma NonTransposeParse_unset_mismatch:
  "Dimensionality infoSet \<noteq> 0 \<Longrightarrow> Dimensionality infoSet \<noteq> length f \<Longrightarrow>
   NonTransposeParse_unset f inout infoSet
     = Some (Inl (DimensionalityMismatch (Dimensionality infoSet) (length f), (inout, infoSet)))
   \<and> NonTransposeParse pol d f inout infoSet = NonTransposeParse_unset f inout infoSet"
  by (simp add: NonTransposeParse_unset_def NonTransposeParse_def GetMatrixSize_def
      check_dimensionality_def)

lemma NonTransposeParse_unset_no_lines:
  "NonTransposeParse pol d [] inout infoSet = NonTransposeParse_unset [] inout infoSet"
  by (simp add: NonTransposeParse_unset_def NonTransposeParse_def GetMatrixSize_def
      check_dimensionality_def SetDimensionality_def)

lemma TransposeParse_unset_no_lines:
  "TransposeParse pol d [] inout infoSet = TransposeParse_unset [] inout infoSet"
  by (simp add: TransposeParse_unset_def TransposeParse_def GetTransposeMatrixSize_def)

lemma NonTransposeParse_unset_Dimensionality:
  "Dimensionality infoSet = 0 \<Longrightarrow> NonTransposeParse_unset f inout infoSet = Some r \<Longrightarrow>
   Dimensionality (mapper_of r) = length f"
  by (auto simp: NonTransposeParse_unset_def check_dimensionality_def SetDimensionality_def
      mapper_of_def split: if_splits)

lemma NonTransposeParse_unset_thrown_mismatch:
  "NonTransposeParse_unset f inout infoSet
     = Some (Inl (DimensionalityMismatch a b, (M, infoSet'))) \<Longrightarrow>
   M = inout \<and> infoSet' = infoSet \<and> a = Dimensionality infoSet \<and> b = length f
   \<and> a \<noteq> 0 \<and> a \<noteq> b"
  by (auto simp: NonTransposeParse_unset_def check_dimensionality_def SetDimensionality_def
      split: if_splits)

subsection \<open>Discovery throws no mismatch after the dimensionality block\<close>

lemma first_pass_error:
  "first_pass pol pos token info = Inl (e, s) \<Longrightarrow> e \<noteq> DimensionalityMismatch a b"
  by (simp add: first_pass_def)

lemma GetMatrixSize_lines_error:
  "GetMatrixSize_lines pol d f ls rows cols info = Some (Inl (e, s)) \<Longrightarrow>
   e \<noteq> DimensionalityMismatch a b"
proof (induction ls arbitrary: rows cols info)
  case Nil
  then show ?case by simp
next
  case (Cons l ls)
  show ?case
  proof (cases "NeedsFirstPass pol")
    case False
    with Cons show ?thesis by (simp add: Let_def)
  next
    case True
    show ?thesis
    proof (cases "trim l = []")
      case blank: True
      with Cons.prems True show ?thesis by (simp add: Let_def)
    next
      case data: False
      show ?thesis
      proof (cases "token_loop d (first_pass pol rows) (sstream_str (trim l)) info")
        case None
        with Cons.prems True data show ?thesis by (simp add: Let_def)
      next
        case (Some r0)
        have inv: "case r0 of Inl (e, s') \<Rightarrow> True \<and> e \<noteq> DimensionalityMismatch a b
                   | Inr s' \<Rightarrow> True"
          by (rule token_loop_invariant[OF Some, where I = "\<lambda>s. True"])
            (auto split: sum.splits dest: first_pass_error)
        show ?thesis
        proof (cases r0)
          case (Inl es)
          with Cons.prems True data Some inv show ?thesis
            by (cases es) (auto simp: Let_def)
        next
          case (Inr info')
          with Cons.prems True data Some Cons.IH show ?thesis
            by (auto simp: Let_def)
        qed
      qed
    qed
  qed
qed

lemma GetMatrixSize_thrown_mismatch:
  assumes "GetMatrixSize pol d f info = Some (Inl (DimensionalityMismatch a b, info'))"
  shows "info' = info \<and> a = Dimensionality info \<and> b = length f \<and> a \<noteq> 0 \<and> a \<noteq> b"
proof (cases "check_dimensionality (length f) info")
  case (Inl es)
  with assms check_dimensionality_Inl[OF Inl] show ?thesis
    by (auto simp: GetMatrixSize_def)
next
  case (Inr info1)
  with assms check_dimensionality_again[OF Inr]
  have "GetMatrixSize_lines pol d f f 0 0 info1
          = Some (Inl (DimensionalityMismatch a b, info'))"
    by (simp add: GetMatrixSize_def)
  from GetMatrixSize_lines_error[OF this, where a = a and b = b] show ?thesis
    by simp
qed

subsection \<open>Population keeps the dimensionality\<close>

lemma NonTranspose_store_keeps_Dimensionality:
  fixes M :: "'v Mat" and info :: "'p DatasetMapper"
  assumes "token_loop d (NonTranspose_store pol row) ls (M, info, col) = Some r"
  shows "case r of Inl (e, s) \<Rightarrow> Dimensionality (fst (snd s)) = Dimensionality info
                 | Inr s \<Rightarrow> Dimensionality (fst (snd s)) = Dimensionality info"
proof -
  let ?I = "\<lambda>s :: 'v Mat \<times> 'p DatasetMapper \<times> nat.
              Dimensionality (fst (snd s)) = Dimensionality info"
  have init: "?I (M, info, col)"
    by simp
  have step: "case NonTranspose_store pol row token s of
                Inl (e, s') \<Rightarrow> ?I s' \<and> True | Inr s' \<Rightarrow> ?I s'"
    if "?I s" for token and s :: "'v Mat \<times> 'p DatasetMapper \<times> nat"
    using that
    by (auto simp: NonTranspose_store_def split: prod.splits sum.splits)
  from token_loop_invariant[of d "NonTranspose_store pol row" ls "(M, info, col)" r
      ?I "\<lambda>e. True", OF assms init step]
  show ?thesis by (auto split: sum.splits)
qed

lemma NonTransposeParse_lines_Dimensionality:
  "NonTransposeParse_lines pol d ls cols row M info = Some r \<Longrightarrow>
   Dimensionality (mapper_of r) = Dimensionality info"
proof (induction ls arbitrary: row M info)
  case Nil
  then show ?case by (auto simp: mapper_of_def)
next
  case (Cons l ls)
  show ?case
  proof (cases "trim l = []")
    case True
    with Cons.prems show ?thesis by (auto simp: mapper_of_def)
  next
    case data: False
    show ?thesis
    proof (cases "token_loop d (NonTranspose_store pol row) (sstream_str (trim l)) (M, info, 0)")
      case None
      with Cons.prems data show ?thesis by simp
    next
      case (Some r0)
      note keep = NonTranspose_store_keeps_Dimensionality[OF Some]
      show ?thesis
      proof (cases r0)
        case (Inl es)
        with Cons.prems data Some keep show ?thesis
          by (cases es) (auto simp: mapper_of_def)
      next
        case (Inr s1)
        show ?thesis
        proof (cases "snd (snd s1) = cols")
          case False
          with Cons.prems data Some Inr keep show ?thesis
            by (auto simp: mapper_of_def)
        next
          case True
          with Cons.prems data Some Inr
          have "NonTransposeParse_lines pol d ls cols (row + 1) (fst s1) (fst (snd s1)) = Some r"
            by simp
          from Cons.IH[OF this] keep Inr show ?thesis by simp
        qed
      qed
    qed
  qed
qed

lemma NonTransposeParse_Dimensionality:
  assumes "Dimensionality infoSet = 0" and "NonTransposeParse pol d f inout infoSet = Some r"
  shows "Dimensionality (mapper_of r) = length f"
proof (cases "GetMatrixSize pol d f infoSet")
  case None
  with assms(2) show ?thesis by (simp add: NonTransposeParse_def)
next
  case (Some r0)
  from GetMatrixSize_seeds[OF assms(1) Some]
  have seeded: "Dimensionality (mapper_after r0) = length f" .
  show ?thesis
  proof (cases r0)
    case (Inl es)
    with assms(2) Some seeded show ?thesis
      by (cases es) (auto simp: NonTransposeParse_def mapper_after_def mapper_of_def)
  next
    case (Inr x)
    obtain rows cols info1 where x: "x = ((rows, cols), info1)"
      by (cases x) auto
    with assms(2) Some Inr
    have "NonTransposeParse_lines pol d f cols 0 (set_size rows cols inout) info1 = Some r"
      by (simp add: NonTransposeParse_def)
    from NonTransposeParse_lines_Dimensionality[OF this] seeded Inr x show ?thesis
      by (simp add: mapper_after_def)
  qed
qed

subsection \<open>Population fills the rows it reaches\<close>

text \<open>
  For a token loop that returns normally, it is enough that the actions that return
  normally keep the invariant.
\<close>

lemma token_loop_success_invariant_aux:
  assumes step: "\<And>token s s'. I s \<Longrightarrow> act token s = Inr s' \<Longrightarrow> I s'"
  shows "token_loop d' act' ls st = Some r \<Longrightarrow>
         act' = act \<and> I st \<longrightarrow> (case r of Inl es \<Rightarrow> True | Inr st' \<Rightarrow> I st')"
proof (rule token_loop.raw_induct
    [where P = "\<lambda>d' act' ls st r. act' = act \<and> I st \<longrightarrow>
                  (case r of Inl es \<Rightarrow> True | Inr st' \<Rightarrow> I st')"])
  fix tl' :: "char \<Rightarrow> (string \<Rightarrow> 'a \<Rightarrow> error \<times> 'a + 'a) \<Rightarrow> sstream \<Rightarrow> 'a
                \<Rightarrow> (error \<times> 'a + 'a) option"
  fix d' act' ls st r
  assume IH: "\<And>d' act' ls st r. tl' d' act' ls st = Some r \<Longrightarrow>
     act' = act \<and> I st \<longrightarrow> (case r of Inl es \<Rightarrow> True | Inr st' \<Rightarrow> I st')"
  assume body: "(if \<not> good ls then Some (Inr st)
      else (case next_token d' ls of
              None \<Rightarrow> None
            | Some (Inl e) \<Rightarrow> Some (Inl (e, st))
            | Some (Inr (token, ls', rd)) \<Rightarrow>
                (case act' token st of
                   Inl es \<Rightarrow> Some (Inl es)
                 | Inr st' \<Rightarrow> tl' d' act' ls' st'))) = Some r"
  show "act' = act \<and> I st \<longrightarrow> (case r of Inl es \<Rightarrow> True | Inr st' \<Rightarrow> I st')"
  proof (intro impI, elim conjE)
    assume aa: "act' = act" and inv: "I st"
    show "case r of Inl es \<Rightarrow> True | Inr st' \<Rightarrow> I st'"
    proof (cases "good ls")
      case False
      with body inv show ?thesis by auto
    next
      case True
      show ?thesis
      proof (cases r)
        case (Inl es)
        then show ?thesis by simp
      next
        case (Inr st')
        from body True Inr obtain token ls' rd
          where nt: "next_token d' ls = Some (Inr (token, ls', rd))"
          by (auto split: option.splits sum.splits)
        from body True Inr nt aa obtain st1
          where a1: "act token st = Inr st1" and rest: "tl' d' act ls' st1 = Some r"
          by (cases "act token st") auto
        from step[OF inv a1] have "I st1" .
        with IH[OF rest] show ?thesis by simp
      qed
    qed
  qed
next
  show "token_loop d' act' ls st = Some r" if "token_loop d' act' ls st = Some r"
    using that .
qed

lemma token_loop_success_invariant:
  assumes "token_loop d act ls st = Some (Inr st')" and "I st"
    and "\<And>token s s'. I s \<Longrightarrow> act token s = Inr s' \<Longrightarrow> I s'"
  shows "I st'"
  using token_loop_success_invariant_aux[of I act d act ls st "Inr st'", OF assms(3) assms(1)]
    assms(2)
  by simp

lemma Mat_assign_cells:
  "Mat_assign M row col v = Inr M' \<Longrightarrow> cells M' = (cells M)((row, col) \<mapsto> v)"
  by (auto simp: Mat_assign_def split: if_splits)

text \<open>
  The token loop of a line never empties a cell, and when it ends it has assigned the
  cells of its row in every column below the final \<open>col\<close>, which has not gone down.
\<close>

lemma NonTranspose_store_fills:
  fixes M :: "'v Mat" and info :: "'p DatasetMapper"
  assumes run: "token_loop d (NonTranspose_store pol row) ls (M, info, col) = Some (Inr s)"
    and before: "\<forall>c<col. cells M (row, c) \<noteq> None"
  shows "(\<forall>r c. cells M (r, c) \<noteq> None \<longrightarrow> cells (fst s) (r, c) \<noteq> None)
         \<and> (\<forall>c < snd (snd s). cells (fst s) (row, c) \<noteq> None)
         \<and> col \<le> snd (snd s)"
proof -
  let ?I = "\<lambda>s :: 'v Mat \<times> 'p DatasetMapper \<times> nat.
              (\<forall>r c. cells M (r, c) \<noteq> None \<longrightarrow> cells (fst s) (r, c) \<noteq> None)
              \<and> (\<forall>c < snd (snd s). cells (fst s) (row, c) \<noteq> None)
              \<and> col \<le> snd (snd s)"
  have init: "?I (M, info, col)"
    using before by simp
  have step: "?I s'"
    if inv: "?I s" and act: "NonTranspose_store pol row token s = Inr s'"
    for token and s s' :: "'v Mat \<times> 'p DatasetMapper \<times> nat"
  proof -
    obtain M1 info1 col1 where s: "s = (M1, info1, col1)"
      by (cases s)
    from act s obtain v p' M2
      where asg: "Mat_assign M1 row col1 v = Inr M2"
        and s': "s' = (M2, info1\<lparr>policy := p'\<rparr>, col1 + 1)"
      by (auto simp: NonTranspose_store_def split: prod.splits sum.splits)
    from Mat_assign_cells[OF asg] have c2: "cells M2 = (cells M1)((row, col1) \<mapsto> v)" .
    from inv s have i1: "\<forall>r c. cells M (r, c) \<noteq> None \<longrightarrow> cells M1 (r, c) \<noteq> None"
      and i2: "\<forall>c < col1. cells M1 (row, c) \<noteq> None" and i3: "col \<le> col1"
      by simp_all
    have "\<forall>r c. cells M (r, c) \<noteq> None \<longrightarrow> cells M2 (r, c) \<noteq> None"
      using i1 c2 by simp
    moreover have "\<forall>c < col1 + 1. cells M2 (row, c) \<noteq> None"
      using i2 c2 by (simp add: less_Suc_eq)
    moreover have "col \<le> col1 + 1"
      using i3 by simp
    ultimately show ?thesis
      using s' by simp
  qed
  from token_loop_success_invariant[of d "NonTranspose_store pol row" ls "(M, info, col)" s ?I,
      OF run init step]
  show ?thesis .
qed

text \<open>A line that is not empty makes the token loop store at least one field.\<close>

lemma NonTranspose_store_first:
  fixes M :: "'v Mat" and info :: "'p DatasetMapper"
  assumes "token_loop d (NonTranspose_store pol row) (sstream_str line) (M, info, 0)
             = Some (Inr s)"
  shows "0 < snd (snd s)"
proof -
  have g: "good (sstream_str line)"
    by (simp add: good_def sstream_str_def)
  from assms g obtain token ls' rd
    where nt: "next_token d (sstream_str line) = Some (Inr (token, ls', rd))"
    by (auto simp: token_loop_good split: option.splits sum.splits)
  from assms g nt obtain s1
    where a1: "NonTranspose_store pol row token (M, info, 0) = Inr s1"
      and rest: "token_loop d (NonTranspose_store pol row) ls' s1 = Some (Inr s)"
    by (cases "NonTranspose_store pol row token (M, info, 0)") (auto simp: token_loop_good)
  from a1 obtain v p' M1 where asg: "Mat_assign M row 0 v = Inr M1"
    and s1: "s1 = (M1, info\<lparr>policy := p'\<rparr>, 1)"
    by (auto simp: NonTranspose_store_def split: prod.splits sum.splits)
  from Mat_assign_cells[OF asg] have "\<forall>c<1. cells M1 (row, c) \<noteq> None"
    by simp
  with rest s1 NonTranspose_store_fills[of d pol row ls' M1 "info\<lparr>policy := p'\<rparr>" 1 s]
  show ?thesis by simp
qed

lemma NonTransposeParse_lines_written:
  "NonTransposeParse_lines pol d ls cols row M info = Some (Inr (M', info')) \<Longrightarrow>
   (\<forall>r c. cells M (r, c) \<noteq> None \<longrightarrow> cells M' (r, c) \<noteq> None)
   \<and> (\<forall>r c. row \<le> r \<and> r < row + lines_before_blank ls \<and> c < cols \<longrightarrow>
          cells M' (r, c) \<noteq> None)
   \<and> (0 < lines_before_blank ls \<longrightarrow> 0 < cols)"
proof (induction ls arbitrary: row M info)
  case Nil
  then show ?case by (auto simp: lines_before_blank_def)
next
  case (Cons l ls)
  show ?case
  proof (cases "trim l = []")
    case True
    with Cons.prems show ?thesis by (auto simp: lines_before_blank_def)
  next
    case data: False
    show ?thesis
    proof (cases "token_loop d (NonTranspose_store pol row) (sstream_str (trim l)) (M, info, 0)")
      case None
      with Cons.prems data show ?thesis by simp
    next
      case (Some r0)
      show ?thesis
      proof (cases r0)
        case (Inl es)
        with Cons.prems data Some show ?thesis
          by (cases es) auto
      next
        case (Inr s1)
        from Some Inr
        have line: "token_loop d (NonTranspose_store pol row) (sstream_str (trim l))
                      (M, info, 0) = Some (Inr s1)"
          by simp
        from Cons.prems data Some Inr
        have count: "snd (snd s1) = cols"
          and rest: "NonTransposeParse_lines pol d ls cols (row + 1) (fst s1) (fst (snd s1))
                       = Some (Inr (M', info'))"
          by (auto split: if_splits)
        from NonTranspose_store_fills[OF line] count
        have keep1: "\<forall>r c. cells M (r, c) \<noteq> None \<longrightarrow> cells (fst s1) (r, c) \<noteq> None"
          and row1: "\<forall>c < cols. cells (fst s1) (row, c) \<noteq> None"
          by simp_all
        from NonTranspose_store_first[OF line] count have pos: "0 < cols"
          by simp
        from Cons.IH[OF rest]
        have keep2: "\<forall>r c. cells (fst s1) (r, c) \<noteq> None \<longrightarrow> cells M' (r, c) \<noteq> None"
          and rows2: "\<forall>r c. row + 1 \<le> r \<and> r < row + 1 + lines_before_blank ls \<and> c < cols
                        \<longrightarrow> cells M' (r, c) \<noteq> None"
          by simp_all
        have lbb: "lines_before_blank (l # ls) = Suc (lines_before_blank ls)"
          using data by (simp add: lines_before_blank_def)
        have "\<forall>r c. row \<le> r \<and> r < row + lines_before_blank (l # ls) \<and> c < cols
                \<longrightarrow> cells M' (r, c) \<noteq> None"
        proof (intro allI impI)
          fix r c
          assume rc: "row \<le> r \<and> r < row + lines_before_blank (l # ls) \<and> c < cols"
          show "cells M' (r, c) \<noteq> None"
          proof (cases "r = row")
            case True
            with rc row1 keep2 show ?thesis by blast
          next
            case False
            with rc lbb have "row + 1 \<le> r \<and> r < row + 1 + lines_before_blank ls \<and> c < cols"
              by simp
            with rows2 show ?thesis by blast
          qed
        qed
        with keep1 keep2 pos show ?thesis by blast
      qed
    qed
  qed
qed

section \<open>The claims\<close>

text \<open>
  C1. Claim: a line with a field that begins with a quote and never finds a closing quote
  makes the load fail fast with an "unterminated quoted field at line N" error, rather
  than loop or index an empty string. The code has no such error. On the one-line file
  \<open>"a,b\<close> the load never returns, in either orientation and already in discovery when the
  policy needs a first pass; on the one-line file \<open>"a,\<close> the inner loop evaluates
  \<open>token[token.size() - 1]\<close> on the empty piece after the last comma, which is index
  \<open>SIZE_MAX\<close> of an empty string.
\<close>

theorem C1_unterminated_quote_loops_or_indexes_empty:
  \<open>Load (recording_policy False) (csv_loader [''"a,b'']) empty_Mat (fresh_mapper 0) False = None
   \<and> Load (recording_policy False) (csv_loader [''"a,b'']) empty_Mat (fresh_mapper 0) True = None
   \<and> GetMatrixSize (recording_policy True) comma [''"a,b''] (fresh_mapper 0) = None
   \<and> GetTransposeMatrixSize (recording_policy True) comma [''"a,b''] (fresh_mapper 0) = None
   \<and> thrown (Load (recording_policy False) (csv_loader [''"a,'']) empty_Mat (fresh_mapper 0) False)
       = Some (StringIndexOutOfRange 0 SIZE_MAX)
   \<and> thrown (Load (recording_policy False) (csv_loader [''"a,'']) empty_Mat (fresh_mapper 0) True)
       = Some (StringIndexOutOfRange 0 SIZE_MAX)\<close>
  by (simp add: eval_simps)

text \<open>
  C2. Claim: for a zero-length field the tokenizer never reads the first character to test
  for a leading quote; the length is checked before any indexing, so nothing is read out
  of range. The code has no length check: on the line \<open>,1\<close> the first field is empty and
  the test reads \<open>token[0]\<close> of a token of size \<open>0\<close>.
\<close>

theorem C2_counterexample:
  \<open>trim (fst (getline comma (sstream_str '',1'') [])) = []
   \<and> next_token comma (sstream_str '',1'')
       = Some (Inr ([], \<lparr>buf = ''1'', eofbit = False, failbit = False\<rparr>, [(0, 0)]))\<close>
  by (simp add: eval_simps)

text \<open>
  C2, amended: for a zero-length field the leading-quote test reads \<open>token[0]\<close> without a
  length check; that is the position \<open>size()\<close>, where \<open>operator[]\<close> is defined and yields
  NUL, so the test is false, the last character is not read, no index is out of range,
  and the field is handed on as the empty token. (The read of the last character inside
  the joining loop is not covered: see C1.)
\<close>

theorem C2_zero_length_field_reads_position_size:
  "good ls \<Longrightarrow> trim (fst (getline d ls [])) = [] \<Longrightarrow>
   next_token d ls = Some (Inr ([], snd (getline d ls []), [(0, 0)]))
   \<and> str_at [] 0 = Inr (CHR 0x00)"
proof -
  assume empty: "trim (fst (getline d ls [])) = []"
  have test: "leading_quote_test [] = (Inr False, [(0, 0)])"
    by (simp add: leading_quote_test_def str_at_def dquote_def)
  obtain token0 ls' where g: "getline d ls [] = (token0, ls')"
    by (cases "getline d ls []")
  with empty have "trim token0 = []"
    by simp
  with g test have "next_token d ls = Some (Inr ([], ls', [(0, 0)]))"
    by (simp add: next_token_def)
  with g show ?thesis
    by (simp add: str_at_def)
qed

theorem C2_zero_length_field_witness:
  \<open>good (sstream_str '',1'') \<and> trim (fst (getline comma (sstream_str '',1'') [])) = []
   \<and> next_token comma (sstream_str '',1'')
       = Some (Inr ([], snd (getline comma (sstream_str '',1'') []), [(0, 0)]))\<close>
proof -
  have g: \<open>good (sstream_str '',1'')\<close>
    by (simp add: good_def sstream_str_def)
  have e: \<open>trim (fst (getline comma (sstream_str '',1'') [])) = []\<close>
    by (simp add: eval_simps)
  show ?thesis
    using g e C2_zero_length_field_reads_position_size[OF g e] by simp
qed

text \<open>
  C3. Claim: the constructor sets the delimiter to comma for \<open>csv\<close>, to tab for \<open>tsv\<close> and
  to a space for any other extension, so it is always one of the three. The last branch of
  the constructor is \<open>else if (extension == "txt")\<close>: for an extension such as \<open>dat\<close> no
  branch is taken and the member is never assigned.
\<close>

theorem C3_counterexample:
  "LoadCSV ''dat'' ''x.dat'' (Some [])
     = Inr \<lparr>delim = None, extension = ''dat'', filename = ''x.dat'', inFile = Some []\<rparr>"
  by (simp add: LoadCSV_def)

text \<open>
  C3, amended: for a file that can be opened the constructor sets the delimiter to comma
  for the extension \<open>csv\<close>, to a horizontal tab for \<open>tsv\<close> and to a single space for \<open>txt\<close>;
  for every other extension it leaves the delimiter unassigned.
\<close>

theorem C3_delimiter_by_extension:
  "LoadCSV ext file (Some f) = Inr L \<Longrightarrow>
   delim L = (if ext = ''csv'' then Some (CHR '','')
              else if ext = ''tsv'' then Some (CHR 0x09)
              else if ext = ''txt'' then Some (CHR '' '')
              else None)"
  by (auto simp: LoadCSV_def tab_def)

theorem C3_delimiter_by_extension_witness:
  "LoadCSV ''tsv'' ''x.tsv'' (Some [''1''])
     = Inr \<lparr>delim = Some (CHR 0x09), extension = ''tsv'', filename = ''x.tsv'',
            inFile = Some [''1'']\<rparr>
   \<and> delim \<lparr>delim = Some (CHR 0x09), extension = ''tsv'', filename = ''x.tsv'',
            inFile = Some [''1'']\<rparr> = Some (CHR 0x09)"
proof -
  have c: "LoadCSV ''tsv'' ''x.tsv'' (Some [''1''])
             = Inr \<lparr>delim = Some (CHR 0x09), extension = ''tsv'', filename = ''x.tsv'',
                    inFile = Some [''1'']\<rparr>"
    by (simp add: LoadCSV_def tab_def)
  show ?thesis
    using c C3_delimiter_by_extension[OF c] by simp
qed

text \<open>
  C4. Claim: in every load, a mapper of dimensionality zero is set to the discovered axis
  length, and a non-zero dimensionality that differs from it makes the load fail with a
  mismatch error naming both values. In transposed orientation the block that sets or
  compares the dimensionality is inside \<open>if (cols == 1)\<close>, in the loop over the lines: a file
  without lines never reaches it. Such a file loaded into a mapper of dimensionality 5
  gives a 0-by-0 matrix, no error, and the mapper keeps 5.
\<close>

theorem C4_counterexample:
  "GetTransposeMatrixSize (recording_policy False) comma [] (fresh_mapper 5)
     = Some (Inr ((0, 0), fresh_mapper 5))
   \<and> Load (recording_policy False) (csv_loader []) empty_Mat (fresh_mapper 5) True
     = Some (Inr (\<lparr>n_rows = 0, n_cols = 0, cells = Map.empty\<rparr>, fresh_mapper 5))
   \<and> Dimensionality (fresh_mapper 5) = 5"
  by (simp add: eval_simps)

text \<open>
  C4, amended. Non-transposed, for every open file, whether the delimiter was assigned or
  not: a mapper whose dimensionality is zero has the number of lines as its dimensionality
  when discovery ends, and when the load ends; a mapper whose dimensionality is non-zero
  and differs from the number of lines makes the load fail with the mismatch error that
  carries the mapper's value and the number of lines, matrix and mapper being as they
  were. Transposed, for every file with at least one line read with an assigned
  delimiter: a mapper whose dimensionality is zero has the field count that the helper
  reports for the first line as its dimensionality when discovery ends; a mapper whose
  dimensionality is non-zero and differs from that count makes the load fail with the
  mismatch error that carries both, matrix and mapper being as they were. Transposed, for
  every file without lines, every mapper and every loader: no check is made, the load
  returns a 0-by-0 matrix and the mapper as it was. Discovery with a mapper of
  dimensionality zero does return when the policy needs no first pass; with a first pass
  it returns unless a token loop does not (see C1).
\<close>

theorem C4_dimensionality_set_or_mismatch:
  assumes "inFile L = Some f"
  shows "(Dimensionality info = 0 \<longrightarrow> GetMatrixSize pol d f info = Some r \<longrightarrow>
            Dimensionality (mapper_after r) = length f)
    \<and> (Dimensionality info = 0 \<longrightarrow> Load pol L inout info False = Some q \<longrightarrow>
            Dimensionality (mapper_of q) = length f)
    \<and> (Dimensionality info \<noteq> 0 \<longrightarrow> Dimensionality info \<noteq> length f \<longrightarrow>
            Load pol L inout info False
              = Some (Inl (DimensionalityMismatch (Dimensionality info) (length f),
                           (inout, info))))
    \<and> (f \<noteq> [] \<longrightarrow> Dimensionality info = 0 \<longrightarrow>
            GetTransposeMatrixSize pol d f info = Some r' \<longrightarrow>
            Dimensionality (mapper_after r') = snd (GetNonNumericMatSize f d))
    \<and> (delim L = Some d \<longrightarrow> f \<noteq> [] \<longrightarrow> Dimensionality info \<noteq> 0 \<longrightarrow>
            Dimensionality info \<noteq> snd (GetNonNumericMatSize f d) \<longrightarrow>
            Load pol L inout info True
              = Some (Inl (DimensionalityMismatch (Dimensionality info)
                             (snd (GetNonNumericMatSize f d)), (inout, info))))
    \<and> (f = [] \<longrightarrow> Load pol L inout info True = Some (Inr (set_size 0 0 inout, info)))
    \<and> (\<not> NeedsFirstPass pol \<longrightarrow> Dimensionality info = 0 \<longrightarrow>
            GetMatrixSize pol d f info
              = Some (Inr ((length f, if f = [] then 0 else snd (GetNonNumericMatSize f d)),
                           SetDimensionality (length f) info)))
    \<and> (\<not> NeedsFirstPass pol \<longrightarrow> f \<noteq> [] \<longrightarrow> Dimensionality info = 0 \<longrightarrow>
            GetTransposeMatrixSize pol d f info
              = Some (Inr ((snd (GetNonNumericMatSize f d), length f),
                           SetDimensionality (snd (GetNonNumericMatSize f d)) info)))"
proof (intro conjI impI)
  assume "Dimensionality info = 0" and "GetMatrixSize pol d f info = Some r"
  then show "Dimensionality (mapper_after r) = length f"
    by (rule GetMatrixSize_seeds)
next
  assume zero: "Dimensionality info = 0" and run: "Load pol L inout info False = Some q"
  show "Dimensionality (mapper_of q) = length f"
  proof (cases "delim L")
    case None
    with run assms have "NonTransposeParse_unset f inout info = Some q"
      by (simp add: Load_def)
    with zero show ?thesis
      by (rule NonTransposeParse_unset_Dimensionality)
  next
    case (Some d')
    with run assms have "NonTransposeParse pol d' f inout info = Some q"
      by (simp add: Load_def)
    with zero show ?thesis
      by (rule NonTransposeParse_Dimensionality)
  qed
next
  assume ne: "Dimensionality info \<noteq> 0" "Dimensionality info \<noteq> length f"
  show "Load pol L inout info False
      = Some (Inl (DimensionalityMismatch (Dimensionality info) (length f), (inout, info)))"
  proof (cases "delim L")
    case None
    with assms NonTransposeParse_unset_mismatch[OF ne, where inout = inout and pol = pol and d = d]
    show ?thesis
      by (simp add: Load_def)
  next
    case (Some d')
    with assms NonTransposeParse_unset_mismatch[OF ne, where inout = inout and pol = pol and d = d']
    show ?thesis
      by (simp add: Load_def)
  qed
next
  assume "f \<noteq> []" and "Dimensionality info = 0"
    and "GetTransposeMatrixSize pol d f info = Some r'"
  then show "Dimensionality (mapper_after r') = snd (GetNonNumericMatSize f d)"
    by (rule GetTransposeMatrixSize_seeds)
next
  assume "delim L = Some d" and "f \<noteq> []" and "Dimensionality info \<noteq> 0"
    and "Dimensionality info \<noteq> snd (GetNonNumericMatSize f d)"
  then show "Load pol L inout info True
      = Some (Inl (DimensionalityMismatch (Dimensionality info)
                     (snd (GetNonNumericMatSize f d)), (inout, info)))"
    using assms by (simp add: Load_def TransposeParse_def GetTransposeMatrixSize_mismatch)
next
  assume "f = []"
  with assms show "Load pol L inout info True = Some (Inr (set_size 0 0 inout, info))"
    by (cases "delim L")
      (simp_all add: Load_def TransposeParse_unset_def TransposeParse_def
        GetTransposeMatrixSize_def)
next
  assume "\<not> NeedsFirstPass pol" and "Dimensionality info = 0"
  then show "GetMatrixSize pol d f info
      = Some (Inr ((length f, if f = [] then 0 else snd (GetNonNumericMatSize f d)),
                   SetDimensionality (length f) info))"
    by (rule GetMatrixSize_no_first_pass)
next
  assume "\<not> NeedsFirstPass pol" and "f \<noteq> []" and "Dimensionality info = 0"
  then show "GetTransposeMatrixSize pol d f info
      = Some (Inr ((snd (GetNonNumericMatSize f d), length f),
                   SetDimensionality (snd (GetNonNumericMatSize f d)) info))"
    by (rule GetTransposeMatrixSize_no_first_pass)
qed

text \<open>
  The example of the claim: four lines against a mapper preset to 5 fail naming 5 and 4,
  with the delimiter assigned (\<open>csv_loader\<close>) and without (\<open>dat_loader\<close>); the same file
  seeds a fresh mapper with 4 (non-transposed) and with 1, the field count of its first
  line (transposed), which is also where a mapper preset to 5 fails transposed; an empty
  file loaded transposed leaves a mapper preset to 5 alone.
\<close>

theorem C4_dimensionality_set_or_mismatch_witness:
  "inFile (csv_loader [''1'', ''2'', ''3'', ''4'']) = Some [''1'', ''2'', ''3'', ''4'']
   \<and> delim (csv_loader [''1'', ''2'', ''3'', ''4'']) = Some comma
   \<and> inFile (dat_loader [''1'', ''2'', ''3'', ''4'']) = Some [''1'', ''2'', ''3'', ''4'']
   \<and> delim (dat_loader [''1'', ''2'', ''3'', ''4'']) = None
   \<and> inFile (dat_loader []) = Some []
   \<and> GetMatrixSize (recording_policy False) comma [''1'', ''2'', ''3'', ''4''] (fresh_mapper 0)
       = Some (Inr ((4, 1), fresh_mapper 4))
   \<and> Dimensionality (mapper_after (Inr ((4 :: nat, 1 :: nat), fresh_mapper 4))) = 4
   \<and> Load (recording_policy False) (csv_loader [''1'', ''2'', ''3'', ''4'']) empty_Mat
        (fresh_mapper 0) False
       = Some (Inr (\<lparr>n_rows = 4, n_cols = 1,
                      cells = [(0, 0) \<mapsto> ''1'', (1, 0) \<mapsto> ''2'', (2, 0) \<mapsto> ''3'', (3, 0) \<mapsto> ''4'']\<rparr>,
                    fresh_mapper 4))
   \<and> Dimensionality (mapper_of (Inr (\<lparr>n_rows = 4, n_cols = 1,
                      cells = [(0, 0) \<mapsto> ''1'', (1, 0) \<mapsto> ''2'', (2, 0) \<mapsto> ''3'', (3, 0) \<mapsto> ''4'']\<rparr>,
                    fresh_mapper 4))) = 4
   \<and> GetTransposeMatrixSize (recording_policy False) comma [''1'', ''2'', ''3'', ''4'']
        (fresh_mapper 0)
       = Some (Inr ((1, 4), fresh_mapper 1))
   \<and> Dimensionality (mapper_after (Inr ((1 :: nat, 4 :: nat), fresh_mapper 1))) = 1
   \<and> Load (recording_policy False) (csv_loader [''1'', ''2'', ''3'', ''4'']) empty_Mat
        (fresh_mapper 5) False
       = Some (Inl (DimensionalityMismatch 5 4, (empty_Mat, fresh_mapper 5)))
   \<and> Load (recording_policy False) (dat_loader [''1'', ''2'', ''3'', ''4'']) empty_Mat
        (fresh_mapper 5) False
       = Some (Inl (DimensionalityMismatch 5 4, (empty_Mat, fresh_mapper 5)))
   \<and> Load (recording_policy False) (csv_loader [''1'', ''2'', ''3'', ''4'']) empty_Mat
        (fresh_mapper 5) True
       = Some (Inl (DimensionalityMismatch 5 1, (empty_Mat, fresh_mapper 5)))
   \<and> Load (recording_policy False) (dat_loader []) empty_Mat (fresh_mapper 5) True
       = Some (Inr (set_size 0 0 empty_Mat, fresh_mapper 5))"
proof -
  let ?f = "[''1'', ''2'', ''3'', ''4'']"
  let ?pol = "recording_policy False :: ((string \<times> nat) list, string) MapPolicy"
  let ?M = "\<lparr>n_rows = 4, n_cols = 1,
             cells = [(0, 0) \<mapsto> ''1'', (1, 0) \<mapsto> ''2'', (2, 0) \<mapsto> ''3'', (3 :: nat, 0 :: nat) \<mapsto> ''4'']\<rparr>"
  have i: "inFile (csv_loader ?f) = Some ?f" and dl: "delim (csv_loader ?f) = Some comma"
    by (simp_all add: csv_loader_def)
  have i': "inFile (dat_loader ?f) = Some ?f" and dl': "delim (dat_loader ?f) = None"
    and i'': "inFile (dat_loader []) = Some []"
    by (simp_all add: dat_loader_def)
  have nt: "GetMatrixSize ?pol comma ?f (fresh_mapper 0) = Some (Inr ((4, 1), fresh_mapper 4))"
    by (simp add: eval_simps)
  have ld: "Load ?pol (csv_loader ?f) empty_Mat (fresh_mapper 0) False
              = Some (Inr (?M, fresh_mapper 4))"
    by (simp add: eval_simps numeral_2_eq_2 numeral_3_eq_3)
  have t: "GetTransposeMatrixSize ?pol comma ?f (fresh_mapper 0)
              = Some (Inr ((1, 4), fresh_mapper 1))"
    by (simp add: eval_simps)
  have z: "Dimensionality (fresh_mapper 0 :: (string \<times> nat) list DatasetMapper) = 0"
    and n: "Dimensionality (fresh_mapper 5 :: (string \<times> nat) list DatasetMapper) = 5"
    by (simp_all add: fresh_mapper_def)
  have ne: "?f \<noteq> []" and len: "length ?f = 4"
    by simp_all
  have cnt: "snd (GetNonNumericMatSize ?f comma) = 1"
    by (simp add: eval_simps)
  have np: "\<not> NeedsFirstPass ?pol"
    by (simp add: recording_policy_def)
  note zero = C4_dimensionality_set_or_mismatch[OF i, where info = "fresh_mapper 0"
        and pol = ?pol and d = comma and r = "Inr ((4, 1), fresh_mapper 4)"
        and r' = "Inr ((1, 4), fresh_mapper 1)" and inout = empty_Mat
        and q = "Inr (?M, fresh_mapper 4)"]
  note five = C4_dimensionality_set_or_mismatch[OF i, where info = "fresh_mapper 5"
        and pol = ?pol and d = comma and r = "Inr ((4, 1), fresh_mapper 4)"
        and r' = "Inr ((1, 4), fresh_mapper 1)" and inout = empty_Mat
        and q = "Inr (?M, fresh_mapper 4)"]
  note unset = C4_dimensionality_set_or_mismatch[OF i', where info = "fresh_mapper 5"
        and pol = ?pol and d = comma and r = "Inr ((4, 1), fresh_mapper 4)"
        and r' = "Inr ((1, 4), fresh_mapper 1)" and inout = empty_Mat
        and q = "Inr (?M, fresh_mapper 4)"]
  note nolines = C4_dimensionality_set_or_mismatch[OF i'', where info = "fresh_mapper 5"
        and pol = ?pol and d = comma and r = "Inr ((4, 1), fresh_mapper 4)"
        and r' = "Inr ((1, 4), fresh_mapper 1)" and inout = empty_Mat
        and q = "Inr (?M, fresh_mapper 4)"]
  show ?thesis
    using i dl i' dl' i'' nt ld t zero five unset nolines z n ne len cnt np by simp
qed

text \<open>
  C5. Claim: during population a line whose field count differs from the fixed axis length
  (\<open>cols\<close> non-transposed, \<open>rows\<close> transposed) aborts the load with the wrong-dimension error
  that names the line (respectively the column) and both counts. The count is compared
  only after the line's token loop, at lines 498 and 607, and that loop has already
  stored every field: a line with too many fields reaches \<open>inout(row, col++)\<close> with
  \<open>col = cols\<close> (respectively \<open>inout(row, col)\<close> with \<open>row = rows\<close>), an access outside the
  matrix, before any comparison. For the lines \<open>1,2\<close> and \<open>3,4,5\<close> that is the access
  \<open>inout(1, 2)\<close> of a 2-by-2 matrix, transposed \<open>inout(2, 1)\<close>; the population loops do
  the same on any matrix of two columns (respectively rows) given the line \<open>3,4,5\<close>,
  whatever discovery computed. A line with too few fields does end in the error of the
  claim: the lines \<open>1,2\<close> and \<open>3\<close> fail on line 1 with 1 field instead of 2.
\<close>

theorem C5_excess_fields_index_outside_matrix:
  "thrown (Load (recording_policy False) (csv_loader [''1,2'', ''3,4,5'']) empty_Mat
             (fresh_mapper 0) False) = Some (MatIndexOutOfBounds 1 2)
   \<and> thrown (Load (recording_policy False) (csv_loader [''1,2'', ''3,4,5'']) empty_Mat
             (fresh_mapper 0) True) = Some (MatIndexOutOfBounds 2 1)
   \<and> thrown (NonTransposeParse_lines (recording_policy False) comma [''3,4,5''] 2 0
             (set_size 1 2 empty_Mat) (fresh_mapper 1)) = Some (MatIndexOutOfBounds 0 2)
   \<and> thrown (TransposeParse_lines (recording_policy False) comma [''3,4,5''] 2 0
             (set_size 2 1 empty_Mat) (fresh_mapper 2)) = Some (MatIndexOutOfBounds 2 0)
   \<and> thrown (Load (recording_policy False) (csv_loader [''1,2'', ''3'']) empty_Mat
             (fresh_mapper 0) False) = Some (NonTransposeWrongDimensions 1 1 2)
   \<and> thrown (Load (recording_policy False) (csv_loader [''1,2'', ''3'']) empty_Mat
             (fresh_mapper 0) True) = Some (TransposeWrongDimensions 1 1 2)"
  by (simp add: eval_simps)

text \<open>
  C6. Claim: when non-transposed discovery returns, the mapper's dimensionality equals the
  discovered row count and \<open>cols\<close> is the field count of the first data-bearing line. The
  dimensionality is the line count of the first loop, but the \<open>rows\<close> handed back is counted
  again by the second loop, which a policy that needs a first pass leaves at the first
  empty line: for the lines \<open>1\<close>, empty, \<open>2\<close> it returns \<open>rows = 2\<close> with dimensionality 3.
\<close>

theorem C6_counterexample:
  "GetMatrixSize (recording_policy True) comma [''1'', '''', ''2''] (fresh_mapper 0)
     = Some (Inr ((2, 1), \<lparr>Dimensionality = 3, policy = [(''1'', 0)]\<rparr>))"
  by (simp add: eval_simps)

text \<open>
  C6, amended: when non-transposed discovery returns, the mapper's dimensionality equals
  the number of lines of the file; the returned \<open>rows\<close> is that number too, unless the
  policy needs a first pass and an empty line comes before the last line, in which case it
  is the number of lines up to and including the first empty one; the returned \<open>cols\<close> is
  the field count of the first data-bearing line (\<open>0\<close> if there is none), whatever the later
  lines hold.
\<close>

theorem C6_discovery_result:
  "GetMatrixSize pol d f info = Some (Inr ((rows, cols), info')) \<Longrightarrow>
   Dimensionality info' = length f
   \<and> rows = (if NeedsFirstPass pol then min (length f) (Suc (lines_before_blank f))
             else length f)
   \<and> cols = (case filter (\<lambda>l. l \<noteq> []) (map trim f) of
               [] \<Rightarrow> 0
             | l # later \<Rightarrow> length (spec_fields d None (split_on d l)))"
proof -
  assume run: "GetMatrixSize pol d f info = Some (Inr ((rows, cols), info'))"
  then obtain info1 where chk: "check_dimensionality (length f) info = Inr info1"
    by (cases "check_dimensionality (length f) info") (auto simp: GetMatrixSize_def)
  with run check_dimensionality_again[OF chk]
  have lines: "GetMatrixSize_lines pol d f f 0 0 info1 = Some (Inr ((rows, cols), info'))"
    by (simp add: GetMatrixSize_def)
  from GetMatrixSize_lines_Dimensionality[OF lines] check_dimensionality_Inr[OF chk]
  have "Dimensionality info' = length f"
    by (simp add: mapper_after_def)
  moreover from GetMatrixSize_lines_result[OF lines]
  have "rows = (if NeedsFirstPass pol then min (length f) (Suc (lines_before_blank f))
                else length f)"
    and "cols = (if f \<noteq> [] then snd (GetNonNumericMatSize f d) else 0)"
    by simp_all
  ultimately show ?thesis
    by (cases f) (simp_all add: GetNonNumericMatSize_def)
qed

theorem C6_discovery_result_witness:
  "GetMatrixSize (recording_policy True) comma [''1,2'', '''', ''3,4,5''] (fresh_mapper 0)
     = Some (Inr ((2, 2), \<lparr>Dimensionality = 3, policy = [(''1'', 0), (''2'', 0)]\<rparr>))
   \<and> Dimensionality \<lparr>Dimensionality = 3, policy = [(''1'', 0 :: nat), (''2'', 0)]\<rparr>
       = length [''1,2'', '''', ''3,4,5'']
   \<and> (2 :: nat) = min (length [''1,2'', '''', ''3,4,5''])
                      (Suc (lines_before_blank [''1,2'', '''', ''3,4,5'']))
   \<and> (2 :: nat) = length (spec_fields comma None (split_on comma ''1,2''))"
proof -
  have run: "GetMatrixSize (recording_policy True) comma [''1,2'', '''', ''3,4,5'']
               (fresh_mapper 0)
     = Some (Inr ((2, 2), \<lparr>Dimensionality = 3, policy = [(''1'', 0), (''2'', 0)]\<rparr>))"
    by (simp add: eval_simps)
  have tr: "filter (\<lambda>l. l \<noteq> []) (map trim [''1,2'', '''', ''3,4,5'']) = [''1,2'', ''3,4,5'']"
    by (simp add: trim_def isspace_def)
  have np: "NeedsFirstPass (recording_policy True :: ((string \<times> nat) list, string) MapPolicy)"
    by (simp add: recording_policy_def)
  show ?thesis
    using run C6_discovery_result[OF run] tr np by simp
qed

text \<open>
  C7. The line \<open>"1,2",3\<close> with the comma as delimiter gives two tokens, not three:
  \<open>"1,2"\<close>, the two pieces joined again with the quotes kept, and \<open>3\<close>. Non-transposed
  they fill the one row of a 1-by-2 matrix, transposed the one column of a 2-by-1 matrix;
  the policy used hands each token to the matrix unchanged.
\<close>

theorem C7_quoted_field_rejoined:
  \<open>line_tokens comma ''"1,2",3'' = [''"1,2"'', ''3'']
   \<and> length (line_tokens comma ''"1,2",3'') = 2
   \<and> Load (recording_policy False) (csv_loader [''"1,2",3'']) empty_Mat (fresh_mapper 0) False
     = Some (Inr (\<lparr>n_rows = 1, n_cols = 2, cells = [(0, 0) \<mapsto> ''"1,2"'', (0, 1) \<mapsto> ''3'']\<rparr>,
                  \<lparr>Dimensionality = 1, policy = []\<rparr>))
   \<and> Load (recording_policy False) (csv_loader [''"1,2",3'']) empty_Mat (fresh_mapper 0) True
     = Some (Inr (\<lparr>n_rows = 2, n_cols = 1, cells = [(0, 0) \<mapsto> ''"1,2"'', (1, 0) \<mapsto> ''3'']\<rparr>,
                  \<lparr>Dimensionality = 2, policy = []\<rparr>))\<close>
  by (simp add: eval_simps line_tokens_def collect_def)

text \<open>
  C8. When the policy needs a preliminary pass and discovery returns, the preliminary hook
  has been called, in order, on every token of every line up to the first empty line: in
  non-transposed orientation with the zero-based index of the token's line as positional
  argument, in transposed orientation with the zero-based index of the token within its
  line, which starts again at zero on each line. The mapper's policy state is the result of
  exactly these calls.
\<close>

theorem C8_first_pass_positions:
  assumes "NeedsFirstPass pol"
  shows "(GetMatrixSize pol d f info = Some (Inr (rc, info')) \<longrightarrow>
            policy info' = apply_calls pol (calls_by_line d 0 f) (policy info))
    \<and> (GetTransposeMatrixSize pol d f info = Some (Inr (rc', info'')) \<longrightarrow>
            policy info'' = apply_calls pol (calls_by_field d f) (policy info))"
proof (intro conjI impI)
  assume run: "GetMatrixSize pol d f info = Some (Inr (rc, info'))"
  then obtain info1 where chk: "check_dimensionality (length f) info = Inr info1"
    by (cases "check_dimensionality (length f) info") (auto simp: GetMatrixSize_def)
  with run check_dimensionality_again[OF chk]
  have "GetMatrixSize_lines pol d f f 0 0 info1 = Some (Inr (rc, info'))"
    by (simp add: GetMatrixSize_def)
  from GetMatrixSize_lines_calls[OF assms this] check_dimensionality_Inr[OF chk]
  show "policy info' = apply_calls pol (calls_by_line d 0 f) (policy info)"
    by simp
next
  assume "GetTransposeMatrixSize pol d f info = Some (Inr (rc', info''))"
  then have "GetTransposeMatrixSize_lines pol d f f 0 0 info = Some (Inr (rc', info''))"
    by (simp add: GetTransposeMatrixSize_def)
  from GetTransposeMatrixSize_lines_calls[OF assms this]
  show "policy info'' = apply_calls pol (calls_by_field d f) (policy info)" .
qed

text \<open>
  With the policy that records the calls, on the lines \<open>a,b\<close>, \<open>c , d\<close> and an empty one: the
  recorded positions are the line indices 0, 0, 1, 1, respectively the field indices
  0, 1, 0, 1.
\<close>

theorem C8_first_pass_positions_witness:
  "NeedsFirstPass (recording_policy True :: ((string \<times> nat) list, string) MapPolicy)
   \<and> GetMatrixSize (recording_policy True) comma [''a,b'', ''c , d'', ''''] (fresh_mapper 0)
       = Some (Inr ((3, 2), \<lparr>Dimensionality = 3,
                              policy = [(''a'', 0), (''b'', 0), (''c'', 1), (''d'', 1)]\<rparr>))
   \<and> calls_by_line comma 0 [''a,b'', ''c , d'', '''']
       = [(''a'', 0), (''b'', 0), (''c'', 1), (''d'', 1)]
   \<and> GetTransposeMatrixSize (recording_policy True) comma [''a,b'', ''c , d'', '''']
        (fresh_mapper 0)
       = Some (Inr ((2, 3), \<lparr>Dimensionality = 2,
                              policy = [(''a'', 0), (''b'', 1), (''c'', 0), (''d'', 1)]\<rparr>))
   \<and> calls_by_field comma [''a,b'', ''c , d'', '''']
       = [(''a'', 0), (''b'', 1), (''c'', 0), (''d'', 1)]"
proof -
  let ?f = "[''a,b'', ''c , d'', '''']"
  let ?pol = "recording_policy True :: ((string \<times> nat) list, string) MapPolicy"
  have np: "NeedsFirstPass ?pol"
    by (simp add: recording_policy_def)
  have nt: "GetMatrixSize ?pol comma ?f (fresh_mapper 0)
       = Some (Inr ((3, 2), \<lparr>Dimensionality = 3,
                              policy = [(''a'', 0), (''b'', 0), (''c'', 1), (''d'', 1)]\<rparr>))"
    by (simp add: eval_simps)
  have t: "GetTransposeMatrixSize ?pol comma ?f (fresh_mapper 0)
       = Some (Inr ((2, 3), \<lparr>Dimensionality = 2,
                              policy = [(''a'', 0), (''b'', 1), (''c'', 0), (''d'', 1)]\<rparr>))"
    by (simp add: eval_simps)
  have rec: "apply_calls ?pol calls p = p @ calls" for calls p
    by (induction calls arbitrary: p) (simp_all add: apply_calls_def recording_policy_def)
  from C8_first_pass_positions[OF np, of comma ?f "fresh_mapper 0" "(3, 2)"
      "\<lparr>Dimensionality = 3, policy = [(''a'', 0), (''b'', 0), (''c'', 1), (''d'', 1)]\<rparr>"
      "(2, 3)" "\<lparr>Dimensionality = 2, policy = [(''a'', 0), (''b'', 1), (''c'', 0), (''d'', 1)]\<rparr>"]
  show ?thesis
    using np nt t by (simp add: rec fresh_mapper_def)
qed

text \<open>
  C9. When a load fails with the dimensionality-mismatch error, the matrix is the one the
  caller passed in: the error was thrown by the discovery pass of the chosen orientation,
  before \<open>set_size\<close> and before any assignment. Non-transposed it comes from the
  dimensionality block after the line count, which throws it whatever the delimiter is,
  also when none was assigned; transposed it comes from the block on the first line,
  which is reached only with an assigned delimiter.
\<close>

theorem C9_mismatch_leaves_matrix_unchanged:
  assumes "Load pol L inout infoSet transpose'
             = Some (Inl (DimensionalityMismatch a b, (M, infoSet')))"
  shows "M = inout
    \<and> (\<exists>f. inFile L = Some f
          \<and> (if transpose'
              then \<exists>d. delim L = Some d
                     \<and> GetTransposeMatrixSize pol d f infoSet
                         = Some (Inl (DimensionalityMismatch a b, infoSet'))
              else \<forall>d. GetMatrixSize pol d f infoSet
                         = Some (Inl (DimensionalityMismatch a b, infoSet'))))"
proof -
  from assms obtain f where f: "inFile L = Some f"
    by (cases "inFile L") (auto simp: Load_def)
  show ?thesis
  proof (cases transpose')
    case True
    from assms f True obtain d where d: "delim L = Some d"
      by (cases "delim L") (auto simp: Load_def TransposeParse_unset_def split: if_splits)
    with assms f True
    have run: "TransposeParse pol d f inout infoSet
                 = Some (Inl (DimensionalityMismatch a b, (M, infoSet')))"
      by (simp add: Load_def)
    show ?thesis
    proof (cases "GetTransposeMatrixSize pol d f infoSet")
      case None
      with run show ?thesis by (simp add: TransposeParse_def)
    next
      case (Some r)
      show ?thesis
      proof (cases r)
        case (Inl es)
        with run Some f d True show ?thesis
          by (cases es) (auto simp: TransposeParse_def)
      next
        case (Inr x)
        obtain rows cols info1 where x: "x = ((rows, cols), info1)"
          by (cases x) auto
        with run Some Inr
        have "TransposeParse_lines pol d f rows 0 (set_size rows cols inout) info1
                = Some (Inl (DimensionalityMismatch a b, (M, infoSet')))"
          by (simp add: TransposeParse_def)
        from TransposeParse_lines_error[OF this, where a = a and b = b] show ?thesis by simp
      qed
    qed
  next
    case False
    have thrown: "M = inout \<and> infoSet' = infoSet \<and> a = Dimensionality infoSet
                  \<and> b = length f \<and> a \<noteq> 0 \<and> a \<noteq> b"
    proof (cases "delim L")
      case None
      with assms f False
      have "NonTransposeParse_unset f inout infoSet
              = Some (Inl (DimensionalityMismatch a b, (M, infoSet')))"
        by (simp add: Load_def)
      then show ?thesis
        by (rule NonTransposeParse_unset_thrown_mismatch)
    next
      case (Some d)
      with assms f False
      have run: "NonTransposeParse pol d f inout infoSet
                   = Some (Inl (DimensionalityMismatch a b, (M, infoSet')))"
        by (simp add: Load_def)
      show ?thesis
      proof (cases "GetMatrixSize pol d f infoSet")
        case None
        with run show ?thesis by (simp add: NonTransposeParse_def)
      next
        case disc: (Some r)
        show ?thesis
        proof (cases r)
          case (Inl es)
          with run disc
          have "GetMatrixSize pol d f infoSet
                  = Some (Inl (DimensionalityMismatch a b, infoSet'))" and "M = inout"
            by (cases es; auto simp: NonTransposeParse_def)+
          with GetMatrixSize_thrown_mismatch[of pol d f infoSet a b infoSet']
          show ?thesis by simp
        next
          case (Inr x)
          obtain rows cols info1 where x: "x = ((rows, cols), info1)"
            by (cases x) auto
          with run disc Inr
          have "NonTransposeParse_lines pol d f cols 0 (set_size rows cols inout) info1
                  = Some (Inl (DimensionalityMismatch a b, (M, infoSet')))"
            by (simp add: NonTransposeParse_def)
          from NonTransposeParse_lines_error[OF this, where a = a and b = b]
          show ?thesis by simp
        qed
      qed
    qed
    then have "\<forall>d. GetMatrixSize pol d f infoSet
                     = Some (Inl (DimensionalityMismatch a b, infoSet'))"
      by (simp add: GetMatrixSize_mismatch)
    with thrown f False show ?thesis by simp
  qed
qed

text \<open>
  Two lines against a mapper preset to 3: transposed with the delimiter assigned, and
  non-transposed with a loader whose delimiter was never assigned. The matrix keeps its
  old cell.
\<close>

theorem C9_mismatch_leaves_matrix_unchanged_witness:
  "Load (recording_policy True) (csv_loader [''a,b'', ''c,d''])
       \<lparr>n_rows = 1, n_cols = 1, cells = [(0, 0) \<mapsto> ''old'']\<rparr> (fresh_mapper 3) True
     = Some (Inl (DimensionalityMismatch 3 2,
                  (\<lparr>n_rows = 1, n_cols = 1, cells = [(0, 0) \<mapsto> ''old'']\<rparr>, fresh_mapper 3)))
   \<and> GetTransposeMatrixSize (recording_policy True) comma [''a,b'', ''c,d''] (fresh_mapper 3)
     = Some (Inl (DimensionalityMismatch 3 2, fresh_mapper 3))
   \<and> Load (recording_policy True) (dat_loader [''a,b'', ''c,d''])
       \<lparr>n_rows = 1, n_cols = 1, cells = [(0, 0) \<mapsto> ''old'']\<rparr> (fresh_mapper 3) False
     = Some (Inl (DimensionalityMismatch 3 2,
                  (\<lparr>n_rows = 1, n_cols = 1, cells = [(0, 0) \<mapsto> ''old'']\<rparr>, fresh_mapper 3)))
   \<and> GetMatrixSize (recording_policy True) comma [''a,b'', ''c,d''] (fresh_mapper 3)
     = Some (Inl (DimensionalityMismatch 3 2, fresh_mapper 3))"
proof -
  have run: "Load (recording_policy True) (csv_loader [''a,b'', ''c,d''])
       \<lparr>n_rows = 1, n_cols = 1, cells = [(0, 0) \<mapsto> ''old'']\<rparr> (fresh_mapper 3) True
     = Some (Inl (DimensionalityMismatch 3 2,
                  (\<lparr>n_rows = 1, n_cols = 1, cells = [(0, 0) \<mapsto> ''old'']\<rparr>, fresh_mapper 3)))"
    by (simp add: eval_simps)
  have run': "Load (recording_policy True) (dat_loader [''a,b'', ''c,d''])
       \<lparr>n_rows = 1, n_cols = 1, cells = [(0, 0) \<mapsto> ''old'']\<rparr> (fresh_mapper 3) False
     = Some (Inl (DimensionalityMismatch 3 2,
                  (\<lparr>n_rows = 1, n_cols = 1, cells = [(0, 0) \<mapsto> ''old'']\<rparr>, fresh_mapper 3)))"
    by (simp add: eval_simps dat_loader_def NonTransposeParse_unset_def)
  show ?thesis
    using run run' C9_mismatch_leaves_matrix_unchanged[OF run]
      C9_mismatch_leaves_matrix_unchanged[OF run']
    by (simp add: csv_loader_def dat_loader_def)
qed

text \<open>
  C10. Claim: non-transposed discovery counts every line, empty ones too, population
  stops at the first empty line, hence for every file whose last line is empty the matrix
  has one row more than population writes, and that last row keeps what allocation left
  in it. With more than one empty line the difference is larger: for the lines \<open>1\<close>,
  empty, empty the matrix has three rows and only row 0 is written.
\<close>

theorem C10_counterexample:
  "Load (recording_policy False) (csv_loader [''1'', '''', '''']) empty_Mat (fresh_mapper 0) False
     = Some (Inr (\<lparr>n_rows = 3, n_cols = 1, cells = [(0, 0) \<mapsto> ''1'']\<rparr>,
                  \<lparr>Dimensionality = 3, policy = []\<rparr>))
   \<and> lines_before_blank [''1'', '''', ''''] = 1"
  by (simp add: eval_simps lines_before_blank_def)

text \<open>
  C10, amended: when a non-transposed load of a file whose last line is empty succeeds,
  the matrix has as many rows as the file has lines (if the policy needs a first pass:
  as many as there are lines up to and including the first empty one); population writes
  every cell of every row before the first empty line (and there is at least one column
  if there is such a row) and no cell of any row from the first empty line on; so the
  matrix has at least one row more than population writes (exactly one more when the last
  line is the only empty one), and every such row, the last row among them, holds what
  \<open>set_size\<close> left in it, which no assignment has touched.
\<close>

theorem C10_rows_from_first_empty_line_unwritten:
  assumes "NonTransposeParse pol d f inout infoSet = Some (Inr (M, infoSet'))"
    and "f \<noteq> []" and "trim (last f) = []"
  shows "n_rows M = (if NeedsFirstPass pol then Suc (lines_before_blank f) else length f)
    \<and> lines_before_blank f < n_rows M
    \<and> (lines_before_blank f = length f - 1 \<longrightarrow> n_rows M = Suc (lines_before_blank f))
    \<and> (\<forall>r c. lines_before_blank f \<le> r \<longrightarrow>
          cells M (r, c) = cells (set_size (n_rows M) (n_cols M) inout) (r, c)
          \<and> cells M (r, c) = None)
    \<and> (\<forall>r c. r < lines_before_blank f \<longrightarrow> c < n_cols M \<longrightarrow> cells M (r, c) \<noteq> None)
    \<and> (0 < lines_before_blank f \<longrightarrow> 0 < n_cols M)"
proof -
  from assms(1) obtain rows cols info1
    where disc: "GetMatrixSize pol d f infoSet = Some (Inr ((rows, cols), info1))"
      and pop: "NonTransposeParse_lines pol d f cols 0 (set_size rows cols inout) info1
                  = Some (Inr (M, infoSet'))"
    by (auto simp: NonTransposeParse_def split: option.splits sum.splits prod.splits)
  from GetMatrixSize_rows[OF disc]
  have rows: "rows = (if NeedsFirstPass pol then min (length f) (Suc (lines_before_blank f))
                      else length f)" .
  note blank = blank_last_line[OF assms(2,3)]
  from NonTransposeParse_lines_untouched[OF pop]
  have size: "n_rows M = rows" "n_cols M = cols"
    and cells: "\<forall>r c. lines_before_blank f \<le> r \<longrightarrow>
                  cells M (r, c) = cells (set_size rows cols inout) (r, c)"
    by (simp_all add: set_size_def)
  from NonTransposeParse_lines_written[OF pop]
  have written: "\<forall>r c. r < lines_before_blank f \<and> c < cols \<longrightarrow> cells M (r, c) \<noteq> None"
    and pos: "0 < lines_before_blank f \<longrightarrow> 0 < cols"
    by simp_all
  have none: "cells (set_size rows cols inout) (r, c) = None" for r c
    by (simp add: set_size_def)
  from size rows blank written pos show ?thesis
    using cells none by (auto simp: min_def)
qed

text \<open>
  Without a first pass, on the lines \<open>1,2\<close>, \<open>3,4\<close>, empty: three rows, rows 0 and 1 written,
  row 2 not. With a first pass, on the lines \<open>1,2\<close>, empty, empty: two rows, row 0 written,
  row 1 not.
\<close>

theorem C10_rows_from_first_empty_line_unwritten_witness:
  "NonTransposeParse (recording_policy False) comma [''1,2'', ''3,4'', ''''] empty_Mat
       (fresh_mapper 0)
     = Some (Inr (\<lparr>n_rows = 3, n_cols = 2,
                    cells = [(0, 0) \<mapsto> ''1'', (0, 1) \<mapsto> ''2'', (1, 0) \<mapsto> ''3'', (1, 1) \<mapsto> ''4'']\<rparr>,
                  \<lparr>Dimensionality = 3, policy = []\<rparr>))
   \<and> [''1,2'', ''3,4'', ''''] \<noteq> [] \<and> trim (last [''1,2'', ''3,4'', '''']) = []
   \<and> lines_before_blank [''1,2'', ''3,4'', ''''] = 2
   \<and> cells \<lparr>n_rows = 3, n_cols = 2,
             cells = [(0, 0) \<mapsto> ''1'', (0, 1) \<mapsto> ''2'', (1, 0) \<mapsto> ''3'', (1, 1) \<mapsto> ''4'']\<rparr> (2, 0)
       = cells (set_size 3 2 empty_Mat) (2, 0)
   \<and> NonTransposeParse (recording_policy True) comma [''1,2'', '''', ''''] empty_Mat
       (fresh_mapper 0)
     = Some (Inr (\<lparr>n_rows = 2, n_cols = 2, cells = [(0, 0) \<mapsto> ''1'', (0, 1) \<mapsto> ''2'']\<rparr>,
                  \<lparr>Dimensionality = 3, policy = [(''1'', 0), (''2'', 0)]\<rparr>))
   \<and> NeedsFirstPass (recording_policy True :: ((string \<times> nat) list, string) MapPolicy)
   \<and> [''1,2'', '''', ''''] \<noteq> [] \<and> trim (last [''1,2'', '''', '''']) = []
   \<and> lines_before_blank [''1,2'', '''', ''''] = 1"
proof -
  have run: "NonTransposeParse (recording_policy False) comma [''1,2'', ''3,4'', ''''] empty_Mat
       (fresh_mapper 0)
     = Some (Inr (\<lparr>n_rows = 3, n_cols = 2,
                    cells = [(0, 0) \<mapsto> ''1'', (0, 1) \<mapsto> ''2'', (1, 0) \<mapsto> ''3'', (1, 1) \<mapsto> ''4'']\<rparr>,
                  \<lparr>Dimensionality = 3, policy = []\<rparr>))"
    by (simp add: eval_simps)
  have ne: "[''1,2'', ''3,4'', ''''] \<noteq> []" and bl: "trim (last [''1,2'', ''3,4'', '''']) = []"
    by (simp_all add: trim_def)
  have lbb: "lines_before_blank [''1,2'', ''3,4'', ''''] = 2"
    by (simp add: lines_before_blank_def trim_def isspace_def)
  have run': "NonTransposeParse (recording_policy True) comma [''1,2'', '''', ''''] empty_Mat
       (fresh_mapper 0)
     = Some (Inr (\<lparr>n_rows = 2, n_cols = 2, cells = [(0, 0) \<mapsto> ''1'', (0, 1) \<mapsto> ''2'']\<rparr>,
                  \<lparr>Dimensionality = 3, policy = [(''1'', 0), (''2'', 0)]\<rparr>))"
    by (simp add: eval_simps)
  have np: "NeedsFirstPass (recording_policy True :: ((string \<times> nat) list, string) MapPolicy)"
    by (simp add: recording_policy_def)
  have ne': "[''1,2'', '''', ''''] \<noteq> []" and bl': "trim (last [''1,2'', '''', '''']) = []"
    by (simp_all add: trim_def)
  have lbb': "lines_before_blank [''1,2'', '''', ''''] = 1"
    by (simp add: lines_before_blank_def trim_def isspace_def)
  show ?thesis
    using run ne bl lbb run' np ne' bl' lbb'
      C10_rows_from_first_empty_line_unwritten[OF run ne bl]
      C10_rows_from_first_empty_line_unwritten[OF run' ne' bl']
    by simp
qed

end
